theory Spec2Isabelle
  imports Main "HOL-Library.Word" "HOL-Library.Countable"
begin

section \<open>JavaScript values used by sudo-logger.js\<close>

text \<open>
  A \<open>Buffer\<close> is a list of bytes. A JavaScript string is a \<open>string\<close>: the bytes of
  its UTF-8 form, where a surrogate that has no partner (which UTF-8 proper cannot
  express) is written as the three bytes of its code point, so \<open>\ud800\<close> is
  \<open>ED A0 80\<close>. Every character the program itself inspects (\<open>-\<close>, \<open>+\<close>, \<open>y\<close>, \<open>e\<close>,
  \<open>s\<close>, the newline, the hexadecimal digits, the letters of \<open>commit \<close>) is ASCII, and
  so are the hashes it cuts with \<open>substring\<close>.
\<close>

type_synonym byte = "8 word"
type_synonym bytes = "byte list"

text \<open>
  The values \<open>JSON.parse\<close> returns and \<open>JSON.stringify\<close> accepts. The numbers the
  program writes are integers (\<open>id\<close>, \<open>exitCode\<close>). An object is the list of its
  properties in insertion order.
\<close>

datatype json =
    JNull
  | JBool bool
  | JNum int
  | JStr string
  | JArr "json list"
  | JObj "(string \<times> json) list"

instance json :: countable
  by countable_datatype

text \<open>
  The terms that stand for a JavaScript value: the property names of an object are
  distinct.
\<close>

fun wf_json :: "json \<Rightarrow> bool" where
  "wf_json (JArr xs) = (\<forall>x \<in> set xs. wf_json x)"
| "wf_json (JObj kvs) = (distinct (map fst kvs) \<and> (\<forall>kv \<in> set kvs. wf_json (snd kv)))"
| "wf_json v = True"

text \<open>The exceptions that can be thrown inside the program.\<close>

datatype error = TypeError | IOError | DecryptionError | SyntaxError | GitConstructError

subsection \<open>String methods\<close>

text \<open>\<open>s.startsWith(p)\<close>\<close>

definition startsWith :: "string \<Rightarrow> string \<Rightarrow> bool" where
  "startsWith s p = (take (length p) s = p)"

text \<open>\<open>s.split(sep)\<close> for a one-character separator; the result is never empty.\<close>

fun splitOn :: "string \<Rightarrow> char \<Rightarrow> string list" where
  "splitOn [] sep = [[]]"
| "splitOn (c # cs) sep =
     (if c = sep then [] # splitOn cs sep
      else (case splitOn cs sep of
              [] \<Rightarrow> [[c]]
            | l # ls \<Rightarrow> (c # l) # ls))"

text \<open>\<open>s.includes(p)\<close>: \<open>p\<close> occurs somewhere in \<open>s\<close>.\<close>

fun includes_str :: "string \<Rightarrow> string \<Rightarrow> bool" where
  "includes_str [] p = (p = [])"
| "includes_str (c # cs) p = (startsWith (c # cs) p \<or> includes_str cs p)"

text \<open>\<open>s.substring(0, n)\<close>\<close>

definition substring0 :: "string \<Rightarrow> nat \<Rightarrow> string" where
  "substring0 s n = take n s"

text \<open>
  \<open>s.toLowerCase()\<close>. On the letters \<open>A\<close> to \<open>Z\<close> it adds 32 to the character code and
  it leaves every other ASCII character alone. (No non-ASCII character lower-cases to
  \<open>y\<close>, \<open>e\<close> or \<open>s\<close>, the only letters the program compares the result with.)
\<close>

definition toLowerCase_char :: "char \<Rightarrow> char" where
  "toLowerCase_char c =
     (let n = (of_char c :: nat) in if 65 \<le> n \<and> n \<le> 90 then char_of (n + 32) else c)"

definition toLowerCase :: "string \<Rightarrow> string" where
  "toLowerCase s = map toLowerCase_char s"

text \<open>\<open>args.join(' ')\<close>\<close>

fun join_args :: "string list \<Rightarrow> string" where
  "join_args [] = []"
| "join_args [a] = a"
| "join_args (a # b # rest) = a @ '' '' @ join_args (b # rest)"

text \<open>A number inside a template literal: the decimal digits of an integer.\<close>

definition digit_char :: "nat \<Rightarrow> char" where
  "digit_char d = char_of (48 + d)"

function number_digits :: "nat \<Rightarrow> string" where
  "number_digits n =
     (if n < 10 then [digit_char n] else number_digits (n div 10) @ [digit_char (n mod 10)])"
  by pat_completeness auto
termination
  by (relation "measure id") auto

declare number_digits.simps [simp del]

definition number_toString :: "int \<Rightarrow> string" where
  "number_toString i =
     (if i < 0 then CHR ''-'' # number_digits (nat (- i)) else number_digits (nat i))"

text \<open>
  \<open>command.match(/commit ([a-f0-9]{7})/)\<close>: the leftmost place where \<open>commit \<close> is
  followed by seven characters of \<open>a-f0-9\<close>; the result is the captured group.
\<close>

definition is_hex_lower :: "char \<Rightarrow> bool" where
  "is_hex_lower c =
     (let n = (of_char c :: nat) in (48 \<le> n \<and> n \<le> 57) \<or> (97 \<le> n \<and> n \<le> 102))"

definition match_here :: "string \<Rightarrow> string option" where
  "match_here s =
     (let captured = take 7 (drop 7 s)
      in if startsWith s ''commit '' \<and> length captured = 7 \<and> list_all is_hex_lower captured
         then Some captured else None)"

fun match_commit :: "string \<Rightarrow> string option" where
  "match_commit [] = None"
| "match_commit (c # cs) =
     (case match_here (c # cs) of
        Some captured \<Rightarrow> Some captured
      | None \<Rightarrow> match_commit cs)"

text \<open>
  Property access \<open>v.k\<close> on a parsed JSON value. \<open>None\<close> stands for \<open>undefined\<close>, and
  also for the \<open>TypeError\<close> of \<open>null.k\<close>: at both places where the program reads a
  property of parsed data the two cases continue the same way (the entry is skipped).
\<close>

definition property :: "json \<Rightarrow> string \<Rightarrow> json option" where
  "property v k = (case v of JObj kvs \<Rightarrow> map_of kvs k | _ \<Rightarrow> None)"

section \<open>Library functions\<close>

text \<open>
  The functions of Node.js (\<open>crypto\<close>, \<open>Buffer\<close>, \<open>JSON\<close>) that the program calls. They
  are not part of the repository and are parameters of the model.
  \<^item> \<open>pbkdf2 password salt iterations keylen digest\<close>
  \<^item> \<open>gcm_encrypt key iv plaintext\<close> is \<open>createCipheriv('aes-256-gcm', key, iv)\<close>
    followed by \<open>update\<close>, \<open>final\<close> and \<open>getAuthTag\<close>; it returns the ciphertext and the tag.
  \<^item> \<open>gcm_decrypt key iv tag ciphertext\<close> is \<open>createDecipheriv\<close>, \<open>setAuthTag\<close>,
    \<open>update\<close> and \<open>final\<close>; \<open>None\<close> when any of them throws.
  \<^item> \<open>utf8_encode\<close> and \<open>utf8_decode\<close> convert between strings and buffers.
  \<^item> \<open>base64_encode\<close> is \<open>buffer.toString('base64')\<close> and \<open>base64_decode\<close> is
    \<open>Buffer.from(text, 'base64')\<close> for a string \<open>text\<close>; \<open>buffer_from_object\<close> is
    \<open>Buffer.from\<close> on an array or object (\<open>None\<close> when it throws).
  \<^item> \<open>json_stringify value indent\<close> and \<open>json_parse text\<close> (\<open>None\<close> when it throws).
  \<^item> \<open>join a b\<close> is \<open>path.join(a, b)\<close>.
\<close>

record lib =
  pbkdf2 :: "string \<Rightarrow> bytes \<Rightarrow> nat \<Rightarrow> nat \<Rightarrow> string \<Rightarrow> bytes"
  gcm_encrypt :: "bytes \<Rightarrow> bytes \<Rightarrow> bytes \<Rightarrow> bytes \<times> bytes"
  gcm_decrypt :: "bytes \<Rightarrow> bytes \<Rightarrow> bytes \<Rightarrow> bytes \<Rightarrow> bytes option"
  utf8_encode :: "string \<Rightarrow> bytes"
  utf8_decode :: "bytes \<Rightarrow> string"
  base64_encode :: "bytes \<Rightarrow> string"
  base64_decode :: "string \<Rightarrow> bytes"
  buffer_from_object :: "json \<Rightarrow> bytes option"
  json_stringify :: "json \<Rightarrow> nat \<Rightarrow> string"
  json_parse :: "string \<Rightarrow> json option"
  join :: "string \<Rightarrow> string \<Rightarrow> string"

text \<open>
  What the program relies on from these functions: \<open>JSON.parse\<close> returns values with
  distinct property names and reads back what \<open>JSON.stringify\<close> wrote, at any
  indentation; decoding base64 inverts encoding it; \<open>pbkdf2\<close> returns as many bytes
  as asked for; AES-256-GCM, given a 32-byte key and a 16-byte nonce, returns a 16-byte
  tag and decrypts what it encrypted.
\<close>

definition json_lib_ok :: "lib \<Rightarrow> bool" where
  "json_lib_ok L =
     ((\<forall>v n. wf_json v \<longrightarrow> json_parse L (json_stringify L v n) = Some v) \<and>
      (\<forall>s v. json_parse L s = Some v \<longrightarrow> wf_json v))"

definition base64_roundtrip :: "lib \<Rightarrow> bool" where
  "base64_roundtrip L = (\<forall>b. base64_decode L (base64_encode L b) = b)"

definition kdf_length :: "lib \<Rightarrow> bool" where
  "kdf_length L = (\<forall>password salt. length (pbkdf2 L password salt 100000 32 ''sha256'') = 32)"

definition aead_correct :: "lib \<Rightarrow> bool" where
  "aead_correct L =
     (\<forall>key iv plain. length key = 32 \<and> length iv = 16 \<longrightarrow>
        length (snd (gcm_encrypt L key iv plain)) = 16 \<and>
        gcm_decrypt L key iv (snd (gcm_encrypt L key iv plain))
          (fst (gcm_encrypt L key iv plain)) = Some plain)"

definition codec_lib_ok :: "lib \<Rightarrow> bool" where
  "codec_lib_ok L = (base64_roundtrip L \<and> kdf_length L \<and> aead_correct L)"

text \<open>The text \<open>JSON.stringify\<close> produces survives UTF-8 encoding and decoding.\<close>

definition utf8_roundtrip_json :: "lib \<Rightarrow> bool" where
  "utf8_roundtrip_json L =
     (\<forall>v n. utf8_decode L (utf8_encode L (json_stringify L v n)) = json_stringify L v n)"

section \<open>Configuration, file system, environment\<close>

text \<open>
  \<open>CONFIG\<close>: the defaults \<open>REPO_PATH\<close> and \<open>LOG_FILE\<close> overlaid with the contents of
  \<open>config.json\<close>; \<open>dirname\<close> is \<open>__dirname\<close>.
\<close>

record config =
  REPO_PATH :: string
  LOG_FILE :: string
  ENCRYPTION_PASSWORD :: string
  GITHUB_REPO :: string
  GITHUB_USER :: "string option"
  GITHUB_TOKEN :: string
  dirname :: string

text \<open>
  The file system maps a path to a regular file with its text or to a directory; a
  path is the key as written, and the working directory is the path \<open>.\<close>.
  \<^item> Reading anything but a regular file throws.
  \<^item> Writing throws when the target is a directory, and when the directory that is to
    hold the target (\<open>parent\<close>) is missing or is a regular file.
  \<^item> \<open>mkdirSync\<close> with \<open>recursive: true\<close> creates the directory and the directories
    above it (\<open>ancestors\<close>) that are missing, and throws when one of them is a regular
    file.
  Permissions and disk space are not represented.
\<close>

datatype node = File string | Dir

type_synonym filesystem = "string \<Rightarrow> node option"

definition parent :: "string \<Rightarrow> string" where
  "parent p =
     (let d = rev (drop 1 (dropWhile (\<lambda>c. c \<noteq> CHR ''/'') (rev p)))
      in if CHR ''/'' \<notin> set p then ''.'' else if d = [] then ''/'' else d)"

definition ancestors :: "string \<Rightarrow> string list" where
  "ancestors p =
     map (\<lambda>i. if i = 0 then ''/'' else take i p)
       (filter (\<lambda>i. p ! i = CHR ''/'') [0..<length p])"

definition is_file :: "filesystem \<Rightarrow> string \<Rightarrow> bool" where
  "is_file f p = (case f p of Some (File s) \<Rightarrow> True | _ \<Rightarrow> False)"

definition existsSync :: "filesystem \<Rightarrow> string \<Rightarrow> bool" where
  "existsSync f p = (f p \<noteq> None)"

definition readFileSync :: "filesystem \<Rightarrow> string \<Rightarrow> error + string" where
  "readFileSync f p = (case f p of Some (File s) \<Rightarrow> Inr s | _ \<Rightarrow> Inl IOError)"

definition writeFileSync :: "filesystem \<Rightarrow> string \<Rightarrow> string \<Rightarrow> error + filesystem" where
  "writeFileSync f p s =
     (case f p of
        Some Dir \<Rightarrow> Inl IOError
      | _ \<Rightarrow> (case f (parent p) of
                Some Dir \<Rightarrow> Inr (f(p \<mapsto> File s))
              | _ \<Rightarrow> Inl IOError))"

definition mkdirSync :: "filesystem \<Rightarrow> string \<Rightarrow> error + filesystem" where
  "mkdirSync f p =
     (if \<exists>a \<in> set (ancestors p @ [p]). is_file f a then Inl IOError
      else Inr (\<lambda>q. if q \<in> set (ancestors p @ [p]) then Some Dir else f q))"

definition copyFileSync :: "filesystem \<Rightarrow> string \<Rightarrow> string \<Rightarrow> error + filesystem" where
  "copyFileSync f src dst =
     (case readFileSync f src of Inl e \<Rightarrow> Inl e | Inr s \<Rightarrow> writeFileSync f dst s)"

text \<open>A commit as \<open>simple-git\<close> reports it.\<close>

record commit =
  commit_hash :: string
  commit_author_name :: string
  commit_date :: string
  commit_message :: string

datatype child_result = ChildExit int | ChildSignal string | SpawnFailed

text \<open>
  Everything the outside world decides during one invocation: the line typed at the
  prompt, the random bytes, clock, user, host and working directory, what each
  \<open>simple-git\<close> call does, and how the \<open>sudo\<close> child ends. A git call that throws is
  \<open>False\<close> (or \<open>None\<close>); \<open>clone\<close> and \<open>pull\<close> also return the working copy as they
  leave it, whether they succeed or not.
\<close>

record env =
  stdin_answer :: string
  random_source :: "nat \<Rightarrow> byte"
  date_now :: string
  env_USER :: "string option"
  os_hostname :: string
  process_cwd :: string
  simpleGit :: "filesystem \<Rightarrow> string \<Rightarrow> bool"
  git_clone :: "string \<Rightarrow> string \<Rightarrow> filesystem \<Rightarrow> bool \<times> filesystem"
  git_addConfig :: "string \<Rightarrow> string \<Rightarrow> bool"
  git_pull :: "filesystem \<Rightarrow> bool \<times> filesystem"
  git_log :: "string \<Rightarrow> commit list option"
  git_show :: "string \<Rightarrow> string \<Rightarrow> string option"
  git_add :: bool
  git_status :: "string list option"
  git_commit :: bool
  git_push :: bool
  sudo_child :: "string list \<Rightarrow> child_result"

text \<open>
  The observable steps of an invocation, in order: what \<open>pullFromGitHub\<close> returned,
  each blob \<open>saveToRepo\<close> wrote, what \<open>pushToGitHub\<close> returned, and the spawn of \<open>sudo\<close>.
\<close>

datatype event = Pulled bool | Saved string | Pushed bool | ExecSudo "string list"

record world =
  fs :: filesystem
  consumed :: nat
  trace :: "event list"

text \<open>
  How the process ends: \<open>process.exit(code)\<close>; the signal of the child raised again
  on the process itself; an exception that rejects the promise of \<open>main\<close> (printed by
  \<open>console.error\<close>); or the unhandled \<open>error\<close> event of a child that could not be
  spawned.
\<close>

datatype outcome =
    Exit int
  | Killed string
  | Rejected error
  | Crashed

definition log_event :: "event \<Rightarrow> world \<Rightarrow> world" where
  "log_event ev w = w\<lparr>trace := trace w @ [ev]\<rparr>"

section \<open>Codec\<close>

text \<open>\<open>randomBytes(n)\<close>: the next \<open>n\<close> bytes of the random source.\<close>

definition randomBytes :: "env \<Rightarrow> nat \<Rightarrow> world \<Rightarrow> bytes \<times> world" where
  "randomBytes E n w =
     (map (random_source E) [consumed w ..< consumed w + n], w\<lparr>consumed := consumed w + n\<rparr>)"

text \<open>\<open>buffer.subarray(start, end)\<close>; out-of-range bounds are clamped.\<close>

definition subarray :: "bytes \<Rightarrow> nat \<Rightarrow> nat \<Rightarrow> bytes" where
  "subarray buffer start fin = take (fin - start) (drop start buffer)"

definition encrypt :: "config \<Rightarrow> lib \<Rightarrow> env \<Rightarrow> string \<Rightarrow> world \<Rightarrow> string \<times> world" where
  "encrypt C L E txt w =
     (let (salt, w1) = randomBytes E 16 w;
          key = pbkdf2 L (ENCRYPTION_PASSWORD C) salt 100000 32 ''sha256'';
          (iv, w2) = randomBytes E 16 w1;
          (encrypted, authTag) = gcm_encrypt L key iv (utf8_encode L txt);
          result = salt @ iv @ authTag @ encrypted
      in (base64_encode L result, w2))"

text \<open>The body of \<open>decrypt\<close> after \<open>Buffer.from(encryptedText, 'base64')\<close>.\<close>

definition decrypt_buffer :: "config \<Rightarrow> lib \<Rightarrow> bytes \<Rightarrow> error + string" where
  "decrypt_buffer C L buffer =
     (let salt = subarray buffer 0 16;
          iv = subarray buffer 16 32;
          authTag = subarray buffer 32 48;
          encrypted = drop 48 buffer;
          key = pbkdf2 L (ENCRYPTION_PASSWORD C) salt 100000 32 ''sha256''
      in case gcm_decrypt L key iv authTag encrypted of
           None \<Rightarrow> Inl DecryptionError
         | Some decrypted \<Rightarrow> Inr (utf8_decode L decrypted))"

definition decrypt :: "config \<Rightarrow> lib \<Rightarrow> string \<Rightarrow> error + string" where
  "decrypt C L encryptedText = decrypt_buffer C L (base64_decode L encryptedText)"

text \<open>
  \<open>decrypt(log.encrypted)\<close> where the argument is whatever the parsed log holds:
  \<open>Buffer.from\<close> throws a \<open>TypeError\<close> on \<open>undefined\<close>, \<open>null\<close>, numbers and booleans.
\<close>

definition decrypt_value :: "config \<Rightarrow> lib \<Rightarrow> json option \<Rightarrow> error + string" where
  "decrypt_value C L v =
     (case v of
        Some (JStr encryptedText) \<Rightarrow> decrypt C L encryptedText
      | Some (JArr xs) \<Rightarrow>
          (case buffer_from_object L (JArr xs) of
             None \<Rightarrow> Inl TypeError
           | Some buffer \<Rightarrow> decrypt_buffer C L buffer)
      | Some (JObj kvs) \<Rightarrow>
          (case buffer_from_object L (JObj kvs) of
             None \<Rightarrow> Inl TypeError
           | Some buffer \<Rightarrow> decrypt_buffer C L buffer)
      | _ \<Rightarrow> Inl TypeError)"

section \<open>Log entries\<close>

text \<open>
  The object literal of \<open>createLogEntry\<close> and \<open>logTamperingWarning\<close>. \<open>user\<close> is
  \<open>process.env.USER || process.env.USERNAME\<close>; when that is \<open>undefined\<close>,
  \<open>JSON.stringify\<close> leaves the property out.
\<close>

definition entry_object :: "env \<Rightarrow> string \<Rightarrow> json \<Rightarrow> string \<Rightarrow> json" where
  "entry_object E command exitCode output =
     JObj ([(''timestamp'', JStr (date_now E))] @
           (case env_USER E of None \<Rightarrow> [] | Some u \<Rightarrow> [(''user'', JStr u)]) @
           [(''hostname'', JStr (os_hostname E)),
            (''command'', JStr command),
            (''exitCode'', exitCode),
            (''output'', JStr output),
            (''cwd'', JStr (process_cwd E))])"

definition createLogEntry :: "config \<Rightarrow> lib \<Rightarrow> env \<Rightarrow> string \<Rightarrow> world \<Rightarrow> string \<times> world" where
  "createLogEntry C L E command w =
     encrypt C L E (json_stringify L (entry_object E command JNull []) 0) w"

section \<open>Entry store\<close>

definition new_record :: "nat \<Rightarrow> string \<Rightarrow> json" where
  "new_record n encryptedEntry =
     JObj [(''id'', JNum (int n + 1)), (''encrypted'', JStr encryptedEntry)]"

text \<open>
  \<open>saveToRepo\<close>. \<open>logs.push\<close> throws a \<open>TypeError\<close> when the parsed document is not an
  array. The result is the exception, if any, and the world at that moment.
\<close>

definition saveToRepo :: "config \<Rightarrow> lib \<Rightarrow> string \<Rightarrow> world \<Rightarrow> error option \<times> world" where
  "saveToRepo C L encryptedEntry w =
     (case (if \<not> existsSync (fs w) (REPO_PATH C) then mkdirSync (fs w) (REPO_PATH C)
            else Inr (fs w)) of
        Inl e \<Rightarrow> (Some e, w)
      | Inr f1 \<Rightarrow>
          (let logFilePath = join L (REPO_PATH C) (LOG_FILE C);
               logs = (if existsSync f1 logFilePath
                       then (case readFileSync f1 logFilePath of
                               Inl e \<Rightarrow> JArr []
                             | Inr s \<Rightarrow> (case json_parse L s of None \<Rightarrow> JArr [] | Some v \<Rightarrow> v))
                       else JArr [])
           in case logs of
                JArr records \<Rightarrow>
                  (case writeFileSync f1 logFilePath
                          (json_stringify L
                             (JArr (records @ [new_record (length records) encryptedEntry])) 2) of
                     Inl e \<Rightarrow> (Some e, w\<lparr>fs := f1\<rparr>)
                   | Inr f2 \<Rightarrow> (None, log_event (Saved encryptedEntry) (w\<lparr>fs := f2\<rparr>)))
              | _ \<Rightarrow> (Some TypeError, w\<lparr>fs := f1\<rparr>)))"

definition copyHtmlViewer :: "config \<Rightarrow> lib \<Rightarrow> world \<Rightarrow> error option \<times> world" where
  "copyHtmlViewer C L w =
     (let htmlSource = join L (dirname C) ''index.html'';
          htmlDest = join L (REPO_PATH C) ''index.html'';
          nojekyll = join L (REPO_PATH C) ''.nojekyll''
      in case (if existsSync (fs w) htmlSource then copyFileSync (fs w) htmlSource htmlDest
               else Inr (fs w)) of
           Inl e \<Rightarrow> (Some e, w)
         | Inr f1 \<Rightarrow>
             (if \<not> existsSync f1 nojekyll
              then (case writeFileSync f1 nojekyll [] of
                      Inl e \<Rightarrow> (Some e, w\<lparr>fs := f1\<rparr>)
                    | Inr f2 \<Rightarrow> (None, w\<lparr>fs := f2\<rparr>))
              else (None, w\<lparr>fs := f1\<rparr>)))"

section \<open>Replication\<close>

text \<open>
  \<open>simpleGit(CONFIG.REPO_PATH)\<close> stands before the \<open>try\<close> in each of the three
  functions that use it, so an exception of the constructor leaves the function.
\<close>

definition pullFromGitHub :: "config \<Rightarrow> lib \<Rightarrow> env \<Rightarrow> world \<Rightarrow> (error + bool) \<times> world" where
  "pullFromGitHub C L E w =
     (if \<not> simpleGit E (fs w) (REPO_PATH C) then (Inl GitConstructError, w)
      else if \<not> existsSync (fs w) (join L (REPO_PATH C) ''.git'') then
        (let remoteUrl = ''https://'' @ GITHUB_TOKEN C @ ''@github.com/'' @ GITHUB_REPO C @ ''.git'';
             (cloned, f1) = git_clone E remoteUrl (REPO_PATH C) (fs w);
             w1 = w\<lparr>fs := f1\<rparr>
         in if \<not> cloned then (Inr False, w1)
            else if \<not> git_addConfig E ''user.name''
                        (case GITHUB_USER C of
                           Some u \<Rightarrow> if u = [] then ''Sudo Logger'' else u
                         | None \<Rightarrow> ''Sudo Logger'')
              then (Inr False, w1)
            else if \<not> git_addConfig E ''user.email''
                        ((case GITHUB_USER C of Some u \<Rightarrow> u | None \<Rightarrow> ''undefined'')
                         @ ''@users.noreply.github.com'')
              then (Inr False, w1)
            else (Inr True, w1))
      else
        (let (pulled, f1) = git_pull E (fs w)
         in (Inr pulled, w\<lparr>fs := f1\<rparr>)))"

definition pushToGitHub :: "config \<Rightarrow> env \<Rightarrow> world \<Rightarrow> error + bool" where
  "pushToGitHub C E w =
     (if \<not> simpleGit E (fs w) (REPO_PATH C) then Inl GitConstructError
      else if \<not> git_add E then Inr False
      else (case git_status E of
              None \<Rightarrow> Inr False
            | Some files \<Rightarrow>
                if length files = 0 then Inr True
                else if \<not> git_commit E then Inr False
                else if \<not> git_push E then Inr False
                else Inr True))"

section \<open>Tamper detection\<close>

text \<open>The inner loop of \<open>checkForTampering\<close>; the state is \<open>(deletions, additions)\<close>.\<close>

fun countLines :: "string list \<Rightarrow> int \<times> int \<Rightarrow> int \<times> int" where
  "countLines [] counts = counts"
| "countLines (line # lines) (deletions, additions) =
     (let deletions1 = (if startsWith line ''-'' \<and> \<not> startsWith line ''---''
                        then deletions + 1 else deletions);
          additions1 = (if startsWith line ''+'' \<and> \<not> startsWith line ''+++''
                        then additions + 1 else additions)
      in countLines lines (deletions1, additions1))"

record tamperInfo =
  hash :: string
  author :: string
  date :: string
  deletions :: int
  message :: string

text \<open>The body of the outer loop for one commit whose diff could be retrieved.\<close>

definition inspectDiff :: "commit \<Rightarrow> string \<Rightarrow> tamperInfo option" where
  "inspectDiff c diff =
     (let lines = splitOn diff (CHR 0x0A);
          (deletionCount, additionCount) = countLines lines (0, 0)
      in if deletionCount > additionCount + 2
         then Some \<lparr>hash = commit_hash c, author = commit_author_name c, date = commit_date c,
                    deletions = deletionCount - 2, message = commit_message c\<rparr>
         else None)"

text \<open>The outer loop; a commit whose \<open>git.show\<close> throws is skipped.\<close>

fun checkCommits :: "config \<Rightarrow> env \<Rightarrow> commit list \<Rightarrow> tamperInfo list" where
  "checkCommits C E [] = []"
| "checkCommits C E (c # cs) =
     (case git_show E (commit_hash c) (LOG_FILE C) of
        None \<Rightarrow> checkCommits C E cs
      | Some diff \<Rightarrow>
          (case inspectDiff c diff of
             None \<Rightarrow> checkCommits C E cs
           | Some t \<Rightarrow> t # checkCommits C E cs))"

definition checkForTampering ::
  "config \<Rightarrow> lib \<Rightarrow> env \<Rightarrow> world \<Rightarrow> error + tamperInfo list" where
  "checkForTampering C L E w =
     (if \<not> simpleGit E (fs w) (REPO_PATH C) then Inl GitConstructError
      else if \<not> existsSync (fs w) (join L (REPO_PATH C) ''.git'') then Inr []
      else (case git_log E (LOG_FILE C) of
              None \<Rightarrow> Inr []
            | Some commits \<Rightarrow> Inr (checkCommits C E commits)))"

definition tamper_command :: "tamperInfo \<Rightarrow> string" where
  "tamper_command t =
     ''[TAMPERING DETECTED] '' @ number_toString (deletions t) @
     '' log entries deleted in commit '' @ substring0 (hash t) 7 @ '' by '' @ author t"

definition tamper_output :: "tamperInfo \<Rightarrow> string" where
  "tamper_output t =
     ''WARNING: Audit log tampering detected!'' @ [CHR 0x0A] @
     ''Commit: '' @ hash t @ [CHR 0x0A] @
     ''Author: '' @ author t @ [CHR 0x0A] @
     ''Date: '' @ date t @ [CHR 0x0A] @
     ''Message: '' @ message t @ [CHR 0x0A] @
     ''Deletions: '' @ number_toString (deletions t) @ '' entries''"

definition logTamperingWarning ::
  "config \<Rightarrow> lib \<Rightarrow> env \<Rightarrow> tamperInfo \<Rightarrow> world \<Rightarrow> string \<times> world" where
  "logTamperingWarning C L E t w =
     encrypt C L E
       (json_stringify L (entry_object E (tamper_command t) (JNum (- 1)) (tamper_output t)) 0) w"

text \<open>
  The body of the loop of \<open>getLoggedTamperCommits\<close> for one element of the log: the
  hash it contributes, or \<open>None\<close> when the element is skipped. A \<open>command\<close> that is
  not a string either is falsy or has no \<open>match\<close> method, and the \<open>catch\<close> skips it.
\<close>

definition loggedHash :: "config \<Rightarrow> lib \<Rightarrow> json \<Rightarrow> string option" where
  "loggedHash C L log =
     (case decrypt_value C L (property log ''encrypted'') of
        Inl e \<Rightarrow> None
      | Inr plain \<Rightarrow>
          (case json_parse L plain of
             None \<Rightarrow> None
           | Some decrypted \<Rightarrow>
               (case property decrypted ''command'' of
                  Some (JStr command) \<Rightarrow>
                    if command \<noteq> [] \<and> includes_str command ''[TAMPERING DETECTED]''
                    then match_commit command else None
                | _ \<Rightarrow> None)))"

fun collectHashes :: "config \<Rightarrow> lib \<Rightarrow> json list \<Rightarrow> string set \<Rightarrow> string set" where
  "collectHashes C L [] commitHashes = commitHashes"
| "collectHashes C L (log # logs) commitHashes =
     collectHashes C L logs
       (case loggedHash C L log of
          Some h \<Rightarrow> insert h commitHashes
        | None \<Rightarrow> commitHashes)"

text \<open>
  \<open>getLoggedTamperCommits\<close>. A parsed document that is not an array makes the
  \<open>for ... of\<close> throw (or, for a string, yields characters that are all skipped); the
  outer \<open>catch\<close> returns the empty set.
\<close>

definition getLoggedTamperCommits :: "config \<Rightarrow> lib \<Rightarrow> world \<Rightarrow> string set" where
  "getLoggedTamperCommits C L w =
     (let logFilePath = join L (REPO_PATH C) (LOG_FILE C)
      in if \<not> existsSync (fs w) logFilePath then {}
         else (case readFileSync (fs w) logFilePath of
                 Inl e \<Rightarrow> {}
               | Inr s \<Rightarrow>
                   (case json_parse L s of
                      Some (JArr logs) \<Rightarrow> collectHashes C L logs {}
                    | _ \<Rightarrow> {})))"

section \<open>Orchestrator\<close>

definition confirmCommand :: "string \<Rightarrow> bool" where
  "confirmCommand answer = (toLowerCase answer = ''y'' \<or> toLowerCase answer = ''yes'')"

definition execSudo :: "env \<Rightarrow> string list \<Rightarrow> world \<Rightarrow> outcome \<times> world" where
  "execSudo E args w =
     (case sudo_child E args of
        ChildSignal signal \<Rightarrow> (Killed signal, log_event (ExecSudo args) w)
      | ChildExit code \<Rightarrow> (Exit code, log_event (ExecSudo args) w)
      | SpawnFailed \<Rightarrow> (Crashed, log_event (ExecSudo args) w))"

text \<open>The loop over \<open>tamperedCommits\<close> in \<open>main\<close>.\<close>

fun reportNewTampering ::
  "config \<Rightarrow> lib \<Rightarrow> env \<Rightarrow> string set \<Rightarrow> tamperInfo list \<Rightarrow> world \<Rightarrow> error option \<times> world" where
  "reportNewTampering C L E alreadyLogged [] w = (None, w)"
| "reportNewTampering C L E alreadyLogged (t # ts) w =
     (let shortHash = substring0 (hash t) 7
      in if shortHash \<notin> alreadyLogged
         then (let (warningEntry, w1) = logTamperingWarning C L E t w
               in case saveToRepo C L warningEntry w1 of
                    (Some e, w2) \<Rightarrow> (Some e, w2)
                  | (None, w2) \<Rightarrow> reportNewTampering C L E alreadyLogged ts w2)
         else reportNewTampering C L E alreadyLogged ts w)"

text \<open>
  Steps 3 and 4 of \<open>main\<close>: \<open>checkForTampering\<close>, \<open>getLoggedTamperCommits\<close>, and the
  report of the commits not yet logged.
\<close>

definition scanAndReport :: "config \<Rightarrow> lib \<Rightarrow> env \<Rightarrow> world \<Rightarrow> error option \<times> world" where
  "scanAndReport C L E w =
     (case checkForTampering C L E w of
        Inl e \<Rightarrow> (Some e, w)
      | Inr tamperedCommits \<Rightarrow>
          (let alreadyLogged = getLoggedTamperCommits C L w
           in if length tamperedCommits > 0
              then reportNewTampering C L E alreadyLogged tamperedCommits w
              else (None, w)))"

text \<open>
  Everything after a successful pull: log, copy the viewer, push, execute. An
  exception rejects the promise of \<open>main\<close>; \<open>console.error\<close> prints it and nothing
  else runs.
\<close>

definition logPushExec ::
  "config \<Rightarrow> lib \<Rightarrow> env \<Rightarrow> string list \<Rightarrow> world \<Rightarrow> outcome \<times> world" where
  "logPushExec C L E args w =
     (let (encryptedEntry, w1) = createLogEntry C L E (join_args args) w
      in case saveToRepo C L encryptedEntry w1 of
           (Some e, w2) \<Rightarrow> (Rejected e, w2)
         | (None, w2) \<Rightarrow>
             (case copyHtmlViewer C L w2 of
                (Some e, w3) \<Rightarrow> (Rejected e, w3)
              | (None, w3) \<Rightarrow>
                  (case pushToGitHub C E w3 of
                     Inl e \<Rightarrow> (Rejected e, w3)
                   | Inr pushSuccess \<Rightarrow>
                       (let w4 = log_event (Pushed pushSuccess) w3
                        in if \<not> pushSuccess then (Exit 1, w4)
                           else execSudo E args w4))))"

definition main :: "config \<Rightarrow> lib \<Rightarrow> env \<Rightarrow> string list \<Rightarrow> world \<Rightarrow> outcome \<times> world" where
  "main C L E args w =
     (if length args = 0 then (Exit 1, w)
      else if \<not> confirmCommand (stdin_answer E) then (Exit 0, w)
      else (case pullFromGitHub C L E w of
              (Inl e, w1) \<Rightarrow> (Rejected e, w1)
            | (Inr pullSuccess, w1) \<Rightarrow>
                (let w2 = log_event (Pulled pullSuccess) w1
                 in if \<not> pullSuccess then (Exit 1, w2)
                    else (case scanAndReport C L E w2 of
                            (Some e, w3) \<Rightarrow> (Rejected e, w3)
                          | (None, w3) \<Rightarrow> logPushExec C L E args w3))))"

text \<open>One invocation of the program on a file system.\<close>

definition run :: "config \<Rightarrow> lib \<Rightarrow> env \<Rightarrow> string list \<Rightarrow> filesystem \<Rightarrow> outcome \<times> world" where
  "run C L E args f = main C L E args \<lparr>fs = f, consumed = 0, trace = []\<rparr>"

section \<open>Notions used to state the properties\<close>

text \<open>
  The counts of the tamper detector, in the words of the specification: the lines of
  the diff that are removed, respectively added, diff metadata lines (\<open>---\<close>, \<open>+++\<close>)
  excluded.
\<close>

definition is_deletion :: "string \<Rightarrow> bool" where
  "is_deletion line = (startsWith line ''-'' \<and> \<not> startsWith line ''---'')"

definition is_addition :: "string \<Rightarrow> bool" where
  "is_addition line = (startsWith line ''+'' \<and> \<not> startsWith line ''+++'')"

definition counted_deletions :: "string \<Rightarrow> nat" where
  "counted_deletions diff = length (filter is_deletion (splitOn diff (CHR 0x0A)))"

definition counted_additions :: "string \<Rightarrow> nat" where
  "counted_additions diff = length (filter is_addition (splitOn diff (CHR 0x0A)))"

text \<open>Sample data for concrete runs.\<close>

definition sample_commit :: commit where
  "sample_commit =
     \<lparr>commit_hash = ''3f2a9c1d5e7b8a6f4c0d2e1b9a8f7c6d5e4b3a21'',
      commit_author_name = ''mallory'',
      commit_date = ''2024-05-01T10:00:00+00:00'',
      commit_message = ''cleanup''\<rparr>"

text \<open>A diff of the log file with three added and five removed lines.\<close>

definition diff_3_5 :: string where
  "diff_3_5 =
     ''diff --git a/audit-log.json b/audit-log.json\<newline>--- a/audit-log.json\<newline>+++ b/audit-log.json\<newline>@@ -1,8 +1,6 @@\<newline> [\<newline>-  {\<newline>-    id: 1,\<newline>-    encrypted: QUJD\<newline>-  },\<newline>-  {\<newline>+  {\<newline>+    id: 1,\<newline>+    encrypted: REVG\<newline>   }\<newline> ]''"

text \<open>The entry store as the program finds it on the file system.\<close>

definition logFilePath :: "config \<Rightarrow> lib \<Rightarrow> string" where
  "logFilePath C L = join L (REPO_PATH C) (LOG_FILE C)"

definition store_document :: "config \<Rightarrow> lib \<Rightarrow> filesystem \<Rightarrow> json option" where
  "store_document C L f =
     (case f (logFilePath C L) of Some (File s) \<Rightarrow> json_parse L s | _ \<Rightarrow> None)"

text \<open>\<open>loadAll\<close> of the specification: the parsed records, or none.\<close>

definition store_records :: "config \<Rightarrow> lib \<Rightarrow> filesystem \<Rightarrow> json list" where
  "store_records C L f = (case store_document C L f of Some (JArr records) \<Rightarrow> records | _ \<Rightarrow> [])"

text \<open>The log file is absent, or its text does not parse.\<close>

definition store_empty :: "config \<Rightarrow> lib \<Rightarrow> filesystem \<Rightarrow> bool" where
  "store_empty C L f =
     (case f (logFilePath C L) of
        None \<Rightarrow> True
      | Some (File s) \<Rightarrow> json_parse L s = None
      | Some Dir \<Rightarrow> False)"

text \<open>Successive calls of \<open>saveToRepo\<close>, one per blob; an exception ends the sequence.\<close>

fun saveAll :: "config \<Rightarrow> lib \<Rightarrow> string list \<Rightarrow> world \<Rightarrow> error option \<times> world" where
  "saveAll C L [] w = (None, w)"
| "saveAll C L (b # bs) w =
     (case saveToRepo C L b w of
        (Some e, w1) \<Rightarrow> (Some e, w1)
      | (None, w1) \<Rightarrow> saveAll C L bs w1)"

text \<open>
  A commit hash as git prints it: at least seven characters, the first seven of them
  lower-case hexadecimal digits.
\<close>

definition wellformed_hash :: "string \<Rightarrow> bool" where
  "wellformed_hash h = (length h \<ge> 7 \<and> list_all is_hex_lower (take 7 h))"

text \<open>The record \<open>checkForTampering\<close> is to produce for a commit and its diff.\<close>

definition tamper_record :: "commit \<Rightarrow> string \<Rightarrow> tamperInfo" where
  "tamper_record c diff =
     \<lparr>hash = commit_hash c, author = commit_author_name c, date = commit_date c,
      deletions = int (counted_deletions diff) - 2, message = commit_message c\<rparr>"

text \<open>The world at the start of a process.\<close>

definition start :: "filesystem \<Rightarrow> world" where
  "start f = \<lparr>fs = f, consumed = 0, trace = []\<rparr>"

subsection \<open>A small instance of the library interface\<close>

text \<open>
  Stand-ins with the properties \<open>codec_lib_ok\<close>, \<open>json_lib_ok\<close> and
  \<open>utf8_roundtrip_json\<close>, for concrete runs: the key is derived from the length of
  the password, the cipher reverses the plaintext and uses half of the key as tag, a
  byte and a character with the same code stand for each other, and a JSON value is
  written as a run of \<open>x\<close> whose length encodes it; paths are joined with a slash.
\<close>

definition ref_lib :: lib where
  "ref_lib =
     \<lparr>pbkdf2 = (\<lambda>password salt iterations keylen digest.
                  map (\<lambda>i. of_nat (length password + i)) [0..<keylen]),
      gcm_encrypt = (\<lambda>key iv plain. (rev plain, take 16 key)),
      gcm_decrypt = (\<lambda>key iv tag cipher. if tag = take 16 key then Some (rev cipher) else None),
      utf8_encode = map (\<lambda>c. of_nat (of_char c)),
      utf8_decode = map (\<lambda>b. char_of (unat b)),
      base64_encode = map (\<lambda>b. char_of (unat b)),
      base64_decode = map (\<lambda>c. of_nat (of_char c)),
      buffer_from_object = (\<lambda>v. None),
      json_stringify = (\<lambda>v indent. replicate (to_nat v) (CHR ''x'')),
      json_parse = (\<lambda>s. if list_all (\<lambda>c. c = CHR ''x'') s \<and> wf_json (from_nat (length s))
                         then Some (from_nat (length s)) else None),
      join = (\<lambda>a b. a @ ''/'' @ b)\<rparr>"

text \<open>
  \<open>Buffer.from(text, 'utf8')\<close> on a string that may hold an unpaired surrogate: Node
  writes the replacement character \<open>EF BF BD\<close> in its place; every other character
  keeps its bytes. \<open>utf8_lib\<close> is \<open>ref_lib\<close> with this encoder.
\<close>

fun utf8_encode_node :: "string \<Rightarrow> bytes" where
  "utf8_encode_node (c1 # c2 # c3 # cs) =
     (if c1 = CHR 0xED \<and> 0xA0 \<le> (of_char c2 :: nat)
      then [0xEF, 0xBF, 0xBD] @ utf8_encode_node cs
      else of_nat (of_char c1) # utf8_encode_node (c2 # c3 # cs))"
| "utf8_encode_node cs = map (\<lambda>c. of_nat (of_char c)) cs"

definition utf8_lib :: lib where
  "utf8_lib = ref_lib\<lparr>utf8_encode := utf8_encode_node\<rparr>"

text \<open>The string \<open>a\ud800b\<close>, and the same with the replacement character.\<close>

definition lone_surrogate :: string where
  "lone_surrogate = [CHR ''a'', CHR 0xED, CHR 0xA0, CHR 0x80, CHR ''b'']"

definition replaced_surrogate :: string where
  "replaced_surrogate = [CHR ''a'', CHR 0xEF, CHR 0xBF, CHR 0xBD, CHR ''b'']"

subsection \<open>Sample configuration, environments and file systems\<close>

definition sample_config :: config where
  "sample_config =
     \<lparr>REPO_PATH = ''/home/alice/.sudo-audit-logs'',
      LOG_FILE = ''audit-log.json'',
      ENCRYPTION_PASSWORD = ''correct horse'',
      GITHUB_REPO = ''alice/audit'',
      GITHUB_USER = Some ''alice'',
      GITHUB_TOKEN = ''ghp_token'',
      dirname = ''/opt/sudo-logger''\<rparr>"

text \<open>
  The user confirms, \<open>simpleGit\<close> accepts an existing directory, every git call
  succeeds, the history is empty, \<open>sudo\<close> exits with 0.
\<close>

definition sample_env :: env where
  "sample_env =
     \<lparr>stdin_answer = ''y'',
      random_source = (\<lambda>i. of_nat (7 * i + 3)),
      date_now = ''2024-05-02T08:00:00.000Z'',
      env_USER = Some ''alice'',
      os_hostname = ''host1'',
      process_cwd = ''/home/alice'',
      simpleGit = (\<lambda>f p. f p = Some Dir),
      git_clone = (\<lambda>url path f. (True, f(path \<mapsto> Dir, path @ ''/.git'' \<mapsto> Dir))),
      git_addConfig = (\<lambda>k v. True),
      git_pull = (\<lambda>f. (True, f)),
      git_log = (\<lambda>p. Some []),
      git_show = (\<lambda>h p. None),
      git_add = True,
      git_status = Some [''audit-log.json''],
      git_commit = True,
      git_push = True,
      sudo_child = (\<lambda>args. ChildExit 0)\<rparr>"

text \<open>An empty directory at \<open>REPO_PATH\<close>, and a cloned working copy without a log file.\<close>

definition fresh_fs :: filesystem where
  "fresh_fs = [''/home/alice/.sudo-audit-logs'' \<mapsto> Dir]"


definition repo_fs :: filesystem where
  "repo_fs =
     [''/home/alice/.sudo-audit-logs'' \<mapsto> Dir,
      ''/home/alice/.sudo-audit-logs/.git'' \<mapsto> Dir]"

text \<open>A diff of the log file that removes five lines and adds none.\<close>

definition diff_0_5 :: string where
  "diff_0_5 =
     ''--- a/audit-log.json\<newline>+++ b/audit-log.json\<newline>@@ -1,6 +1,1 @@\<newline>-  {\<newline>-    id: 1,\<newline>-    encrypted: QUJD\<newline>-  },\<newline>-  {''"

text \<open>
  A second commit; in \<open>two_commit_env\<close> the history holds \<open>sample_commit\<close> with the
  diff \<open>diff_0_5\<close> and \<open>benign_commit\<close> with the diff \<open>diff_3_5\<close>.
\<close>

definition benign_commit :: commit where
  "benign_commit =
     \<lparr>commit_hash = ''9b1c4e7a2d5f8063c1e4a7b0d3f6928c5e1b4a70'',
      commit_author_name = ''alice'',
      commit_date = ''2024-05-01T12:00:00+00:00'',
      commit_message = ''Log entry: 2024-05-01T12:00:00.000Z''\<rparr>"

definition two_commit_env :: env where
  "two_commit_env =
     sample_env\<lparr>git_log := (\<lambda>p. Some [sample_commit, benign_commit]),
                git_show := (\<lambda>h p. if h = commit_hash sample_commit then Some diff_0_5
                                     else Some diff_3_5)\<rparr>"

text \<open>
  The clone succeeds and brings the log file of the remote repository; the first
  \<open>addConfig\<close> after it throws.
\<close>

definition clone_env :: env where
  "clone_env =
     sample_env\<lparr>git_clone := (\<lambda>url path f.
                   (True, f(path \<mapsto> Dir, path @ ''/.git'' \<mapsto> Dir,
                            path @ ''/audit-log.json'' \<mapsto> File ''[]''))),
                git_addConfig := (\<lambda>k v. False)\<rparr>"

text \<open>The history holds one commit, \<open>sample_commit\<close>, with the diff \<open>diff_0_5\<close>.\<close>

definition tamper_env :: env where
  "tamper_env = sample_env\<lparr>git_log := (\<lambda>p. Some [sample_commit]),
                            git_show := (\<lambda>h p. Some diff_0_5)\<rparr>"

section \<open>Properties\<close>

subsection \<open>Confirmation\<close>

lemma toLowerCase_char_iff:
  "toLowerCase_char c = d \<longleftrightarrow>
     (if 65 \<le> (of_char c :: nat) \<and> (of_char c :: nat) \<le> 90
      then (of_char d :: nat) = of_char c + 32 else d = c)"
proof (cases "65 \<le> (of_char c :: nat) \<and> (of_char c :: nat) \<le> 90")
  case True
  then have "(of_char c + 32 :: nat) mod 256 = of_char c + 32"
    by simp
  with True show ?thesis
    by (auto simp: toLowerCase_char_def Let_def char_of_eq_iff take_bit_eq_mod)
next
  case False
  then show ?thesis
    by (auto simp: toLowerCase_char_def Let_def)
qed

lemma char_by_code: "(of_char d :: nat) = n \<Longrightarrow> (c = d \<longleftrightarrow> (of_char c :: nat) = n)"
  by auto

lemma lower_is_y: "toLowerCase_char c = CHR ''y'' \<longleftrightarrow> c = CHR ''y'' \<or> c = CHR ''Y''"
  using char_by_code[of "CHR ''y''" 121 c] char_by_code[of "CHR ''Y''" 89 c]
  by (auto simp: toLowerCase_char_iff)

lemma lower_is_e: "toLowerCase_char c = CHR ''e'' \<longleftrightarrow> c = CHR ''e'' \<or> c = CHR ''E''"
  using char_by_code[of "CHR ''e''" 101 c] char_by_code[of "CHR ''E''" 69 c]
  by (auto simp: toLowerCase_char_iff)

lemma lower_is_s: "toLowerCase_char c = CHR ''s'' \<longleftrightarrow> c = CHR ''s'' \<or> c = CHR ''S''"
  using char_by_code[of "CHR ''s''" 115 c] char_by_code[of "CHR ''S''" 83 c]
  by (auto simp: toLowerCase_char_iff)

lemma map_eq_single: "map f a = [x] \<longleftrightarrow> (\<exists>c. a = [c] \<and> f c = x)"
  by (cases a) auto

lemma map_eq_triple:
  "map f a = [x, y, z] \<longleftrightarrow> (\<exists>c1 c2 c3. a = [c1, c2, c3] \<and> f c1 = x \<and> f c2 = y \<and> f c3 = z)"
  by (auto simp: map_eq_Cons_conv)

lemma confirmCommand_chars:
  "confirmCommand a \<longleftrightarrow>
     (\<exists>c1. a = [c1] \<and> (c1 = CHR ''y'' \<or> c1 = CHR ''Y'')) \<or>
     (\<exists>c1 c2 c3. a = [c1, c2, c3] \<and> (c1 = CHR ''y'' \<or> c1 = CHR ''Y'') \<and>
        (c2 = CHR ''e'' \<or> c2 = CHR ''E'') \<and> (c3 = CHR ''s'' \<or> c3 = CHR ''S''))"
  unfolding confirmCommand_def toLowerCase_def map_eq_single map_eq_triple
    lower_is_y lower_is_e lower_is_s
  by (rule refl)

text \<open>
  C10. The answer at the prompt is affirmative exactly when its lower-case form is
  \<open>y\<close> or \<open>yes\<close>, that is, for the ten spellings below; the answers \<open>y\<close> followed by a
  space, \<open>Y es\<close> and the empty answer are declined.
\<close>

theorem confirmCommand_affirmative_iff:
  "(confirmCommand a \<longleftrightarrow>
      a \<in> {''y'', ''Y'', ''yes'', ''yeS'', ''yEs'', ''yES'', ''Yes'', ''YeS'', ''YEs'', ''YES''})
   \<and> (confirmCommand a \<longleftrightarrow> toLowerCase a = ''y'' \<or> toLowerCase a = ''yes'')
   \<and> \<not> confirmCommand ''y '' \<and> \<not> confirmCommand ''Y es'' \<and> \<not> confirmCommand ''''"
proof (intro conjI iffI)
  assume "confirmCommand a"
  then show "a \<in> {''y'', ''Y'', ''yes'', ''yeS'', ''yEs'', ''yES'', ''Yes'', ''YeS'', ''YEs'', ''YES''}"
    unfolding confirmCommand_chars by (elim disjE exE conjE; simp)
next
  assume "a \<in> {''y'', ''Y'', ''yes'', ''yeS'', ''yEs'', ''yES'', ''Yes'', ''YeS'', ''YEs'', ''YES''}"
  then show "confirmCommand a"
    unfolding confirmCommand_chars by (elim insertE emptyE; simp)
next
  assume "confirmCommand a"
  then show "toLowerCase a = ''y'' \<or> toLowerCase a = ''yes''"
    by (simp add: confirmCommand_def)
next
  assume "toLowerCase a = ''y'' \<or> toLowerCase a = ''yes''"
  then show "confirmCommand a"
    by (simp add: confirmCommand_def)
next
  show "\<not> confirmCommand ''y ''" unfolding confirmCommand_chars by simp
  show "\<not> confirmCommand ''Y es''" unfolding confirmCommand_chars by simp
  show "\<not> confirmCommand ''''" unfolding confirmCommand_chars by simp
qed

subsection \<open>Tamper detector\<close>

lemma countLines_filter:
  "countLines lines (d0, a0) =
     (d0 + int (length (filter is_deletion lines)), a0 + int (length (filter is_addition lines)))"
  by (induction lines arbitrary: d0 a0) (simp_all add: is_deletion_def is_addition_def Let_def)

lemma inspectDiff_counts:
  "inspectDiff c diff =
     (if counted_deletions diff > counted_additions diff + 2
      then Some \<lparr>hash = commit_hash c, author = commit_author_name c, date = commit_date c,
                 deletions = int (counted_deletions diff) - 2, message = commit_message c\<rparr>
      else None)"
  by (simp add: inspectDiff_def countLines_filter counted_deletions_def counted_additions_def Let_def)

lemma diff_3_5_counts: "counted_additions diff_3_5 = 3 \<and> counted_deletions diff_3_5 = 5"
  by (simp add: counted_additions_def counted_deletions_def diff_3_5_def
      is_addition_def is_deletion_def startsWith_def)

lemma checkCommits_map_filter:
  "checkCommits C E commits =
     List.map_filter
       (\<lambda>c. case git_show E (commit_hash c) (LOG_FILE C) of
              None \<Rightarrow> None
            | Some diff \<Rightarrow>
                if counted_deletions diff > counted_additions diff + 2
                then Some (tamper_record c diff) else None)
       commits"
  by (induction commits)
    (auto simp: List.map_filter_simps inspectDiff_counts tamper_record_def split: option.splits)

lemma set_map_filter_iff: "y \<in> set (List.map_filter g xs) \<longleftrightarrow> (\<exists>x \<in> set xs. g x = Some y)"
  by (induction xs) (auto split: option.splits)

lemma tamper_record_hash: "tamper_record c diff = tamper_record c' diff' \<Longrightarrow> commit_hash c' = commit_hash c"
  by (simp add: tamper_record_def)

lemma checkCommits_mem:
  assumes "c \<in> set commits" and "git_show E (commit_hash c) (LOG_FILE C) = Some diff"
  shows "tamper_record c diff \<in> set (checkCommits C E commits) \<longleftrightarrow>
           counted_deletions diff > counted_additions diff + 2"
proof
  assume "tamper_record c diff \<in> set (checkCommits C E commits)"
  then obtain c' diff' where
    g: "git_show E (commit_hash c') (LOG_FILE C) = Some diff'" and
    d: "counted_deletions diff' > counted_additions diff' + 2" and
    e: "tamper_record c diff = tamper_record c' diff'"
    unfolding checkCommits_map_filter set_map_filter_iff
    by (auto split: option.splits if_splits)
  from tamper_record_hash[OF e] g assms(2) have "diff' = diff" by simp
  with d show "counted_deletions diff > counted_additions diff + 2" by simp
next
  assume "counted_deletions diff > counted_additions diff + 2"
  with assms show "tamper_record c diff \<in> set (checkCommits C E commits)"
    unfolding checkCommits_map_filter set_map_filter_iff
    by force
qed

lemma checkForTampering_scans:
  assumes "simpleGit E (fs w) (REPO_PATH C)"
    and "existsSync (fs w) (join L (REPO_PATH C) ''.git'')"
    and "git_log E (LOG_FILE C) = Some commits"
  shows "checkForTampering C L E w = Inr (checkCommits C E commits)"
  using assms by (simp add: checkForTampering_def)

text \<open>
  C3. Where the working copy exists and git lists the commits of the log file,
  \<open>checkForTampering\<close> returns, in the order of the commits, one record for every commit
  whose diff could be retrieved and has \<open>d > a + 2\<close>, for \<open>a\<close> counted additions and
  \<open>d\<close> counted deletions, and no other record. So a commit with a retrievable diff is
  classified as suspicious if and only if \<open>d > a + 2\<close>, and its record carries the
  commit's hash, author, date and message and \<open>deletions = d - 2\<close>.
\<close>

theorem checkForTampering_classifies:
  assumes "simpleGit E (fs w) (REPO_PATH C)"
    and "existsSync (fs w) (join L (REPO_PATH C) ''.git'')"
    and "git_log E (LOG_FILE C) = Some commits"
  shows "\<exists>ts. checkForTampering C L E w = Inr ts \<and>
           ts = List.map_filter
                  (\<lambda>c. case git_show E (commit_hash c) (LOG_FILE C) of
                         None \<Rightarrow> None
                       | Some diff \<Rightarrow>
                           if counted_deletions diff > counted_additions diff + 2
                           then Some \<lparr>hash = commit_hash c, author = commit_author_name c,
                                      date = commit_date c,
                                      deletions = int (counted_deletions diff) - 2,
                                      message = commit_message c\<rparr>
                           else None)
                  commits \<and>
           (\<forall>c \<in> set commits. \<forall>diff.
              git_show E (commit_hash c) (LOG_FILE C) = Some diff \<longrightarrow>
                (\<lparr>hash = commit_hash c, author = commit_author_name c, date = commit_date c,
                  deletions = int (counted_deletions diff) - 2, message = commit_message c\<rparr>
                   \<in> set ts
                 \<longleftrightarrow> counted_deletions diff > counted_additions diff + 2))"
  using checkForTampering_scans[OF assms] checkCommits_mem[of _ commits E C]
    checkCommits_map_filter[of C E commits]
  unfolding tamper_record_def by simp

lemma diff_0_5_counts: "counted_additions diff_0_5 = 0 \<and> counted_deletions diff_0_5 = 5"
  by (simp add: counted_additions_def counted_deletions_def diff_0_5_def
      is_addition_def is_deletion_def startsWith_def)

theorem checkForTampering_classifies_witness:
  "simpleGit two_commit_env (fs (start repo_fs)) (REPO_PATH sample_config) \<and>
   existsSync (fs (start repo_fs)) (join ref_lib (REPO_PATH sample_config) ''.git'') \<and>
   git_log two_commit_env (LOG_FILE sample_config) = Some [sample_commit, benign_commit] \<and>
   checkForTampering sample_config ref_lib two_commit_env (start repo_fs) =
     Inr [\<lparr>hash = ''3f2a9c1d5e7b8a6f4c0d2e1b9a8f7c6d5e4b3a21'', author = ''mallory'',
           date = ''2024-05-01T10:00:00+00:00'', deletions = 3, message = ''cleanup''\<rparr>]"
proof -
  have a: "simpleGit two_commit_env (fs (start repo_fs)) (REPO_PATH sample_config)"
    by (simp add: two_commit_env_def sample_env_def start_def repo_fs_def sample_config_def)
  have b: "existsSync (fs (start repo_fs)) (join ref_lib (REPO_PATH sample_config) ''.git'')"
    by (simp add: existsSync_def start_def repo_fs_def sample_config_def ref_lib_def)
  have c: "git_log two_commit_env (LOG_FILE sample_config) = Some [sample_commit, benign_commit]"
    by (simp add: two_commit_env_def)
  have s: "git_show two_commit_env (commit_hash sample_commit) (LOG_FILE sample_config) = Some diff_0_5"
    by (simp add: two_commit_env_def)
  have n: "git_show two_commit_env (commit_hash benign_commit) (LOG_FILE sample_config) = Some diff_3_5"
    by (simp add: two_commit_env_def sample_commit_def benign_commit_def)
  from checkForTampering_classifies[OF a b c] a b c
  show ?thesis
    using diff_0_5_counts diff_3_5_counts
    by (simp add: List.map_filter_simps s n) (simp add: sample_commit_def)
qed

text \<open>
  C4, as stated, fails: the diff \<open>diff_3_5\<close> has exactly 3 counted additions and 5
  counted deletions, and the detector does not report the commit (\<open>5 > 3 + 2\<close> is false).
\<close>

theorem three_additions_five_deletions_counterexample:
  "counted_additions diff_3_5 = 3 \<and> counted_deletions diff_3_5 = 5 \<and>
   inspectDiff sample_commit diff_3_5 = None"
  using diff_3_5_counts by (simp add: inspectDiff_counts)

text \<open>
  C4, amended. A commit whose diff has exactly 3 counted additions and 5 counted
  deletions is within the tolerance: the detector does not classify it as suspicious.
\<close>

theorem three_additions_five_deletions_benign:
  "counted_additions diff = 3 \<Longrightarrow> counted_deletions diff = 5 \<Longrightarrow> inspectDiff c diff = None"
  by (simp add: inspectDiff_counts)

theorem three_additions_five_deletions_benign_witness:
  "counted_additions ''-a\<newline>-b\<newline>-c\<newline>-d\<newline>-e\<newline>+x\<newline>+y\<newline>+z'' = 3 \<and>
   counted_deletions ''-a\<newline>-b\<newline>-c\<newline>-d\<newline>-e\<newline>+x\<newline>+y\<newline>+z'' = 5 \<and>
   inspectDiff sample_commit ''-a\<newline>-b\<newline>-c\<newline>-d\<newline>-e\<newline>+x\<newline>+y\<newline>+z'' = None"
proof -
  have a: "counted_additions ''-a\<newline>-b\<newline>-c\<newline>-d\<newline>-e\<newline>+x\<newline>+y\<newline>+z'' = 3"
    by (simp add: counted_additions_def is_addition_def startsWith_def)
  have d: "counted_deletions ''-a\<newline>-b\<newline>-c\<newline>-d\<newline>-e\<newline>+x\<newline>+y\<newline>+z'' = 5"
    by (simp add: counted_deletions_def is_deletion_def startsWith_def)
  show ?thesis
    using a d three_additions_five_deletions_benign [OF a d, of sample_commit] by simp
qed

subsection \<open>The codec and the library instance\<close>

lemma byte_of_char_of_byte: "(of_nat (of_char (char_of (unat (b :: byte)) :: char)) :: byte) = b"
proof -
  have "unat b < 256"
    using unsigned_less [of b, where 'a = nat] by simp
  then show ?thesis
    by simp
qed

lemma char_of_byte_of_char: "char_of (unat (of_nat (of_char c :: nat) :: byte)) = c"
  by (simp add: unat_of_nat)

lemma ref_base64: "map (\<lambda>c. of_nat (of_char c)) (map (\<lambda>b. char_of (unat b)) (bs :: bytes)) = bs"
  by (induction bs) (simp_all only: list.map byte_of_char_of_byte)

lemma ref_utf8: "map (\<lambda>b. char_of (unat (b :: byte))) (map (\<lambda>c. of_nat (of_char c)) s) = s"
  by (induction s) (simp_all only: list.map char_of_byte_of_char)

lemma ref_lib_codec_ok: "codec_lib_ok ref_lib"
proof -
  have "base64_roundtrip ref_lib"
    unfolding base64_roundtrip_def ref_lib_def by (simp only: lib.simps ref_base64) simp
  moreover have "kdf_length ref_lib"
    by (simp add: kdf_length_def ref_lib_def)
  moreover have "aead_correct ref_lib"
    by (simp add: aead_correct_def ref_lib_def)
  ultimately show ?thesis
    by (simp add: codec_lib_ok_def)
qed

lemma ref_lib_json: "json_lib_ok ref_lib"
  by (auto simp: json_lib_ok_def ref_lib_def list_all_iff split: if_splits)

lemma ref_lib_utf8_json: "utf8_roundtrip_json ref_lib"
  unfolding utf8_roundtrip_json_def ref_lib_def by (simp only: lib.simps ref_utf8) simp

lemma ref_lib_utf8: "utf8_decode ref_lib (utf8_encode ref_lib s) = s"
  unfolding ref_lib_def by (simp only: lib.simps ref_utf8)

lemma decrypt_buffer_fails_iff:
  "decrypt_buffer C L buffer = Inl DecryptionError \<longleftrightarrow>
     gcm_decrypt L
       (pbkdf2 L (ENCRYPTION_PASSWORD C) (subarray buffer 0 16) 100000 32 ''sha256'')
       (subarray buffer 16 32) (subarray buffer 32 48) (drop 48 buffer) = None"
  by (simp add: decrypt_buffer_def Let_def split: option.splits)

lemma length_randomBytes: "length (fst (randomBytes E n w)) = n"
  by (simp add: randomBytes_def)

lemma decrypt_encrypt_general:
  assumes "codec_lib_ok L"
  shows "decrypt C L (fst (encrypt C L E p w)) = Inr (utf8_decode L (utf8_encode L p))"
proof -
  obtain salt w1 where s: "randomBytes E 16 w = (salt, w1)" by (cases "randomBytes E 16 w")
  obtain iv w2 where i: "randomBytes E 16 w1 = (iv, w2)" by (cases "randomBytes E 16 w1")
  define key where "key = pbkdf2 L (ENCRYPTION_PASSWORD C) salt 100000 32 ''sha256''"
  obtain encrypted authTag where g: "gcm_encrypt L key iv (utf8_encode L p) = (encrypted, authTag)"
    by (cases "gcm_encrypt L key iv (utf8_encode L p)")
  have ls: "length salt = 16" using length_randomBytes[of E 16 w] s by simp
  have li: "length iv = 16" using length_randomBytes[of E 16 w1] i by simp
  have lk: "length key = 32" using assms(1) by (simp add: codec_lib_ok_def kdf_length_def key_def)
  have ae: "length authTag = 16 \<and> gcm_decrypt L key iv authTag encrypted = Some (utf8_encode L p)"
    using assms(1) lk li g unfolding codec_lib_ok_def aead_correct_def
    by (metis fst_conv snd_conv)
  have b64: "base64_decode L (base64_encode L b) = b" for b
    using assms(1) by (simp add: codec_lib_ok_def base64_roundtrip_def)
  have e: "fst (encrypt C L E p w) = base64_encode L (salt @ iv @ authTag @ encrypted)"
    using s i g by (simp add: encrypt_def key_def Let_def)
  show ?thesis
    unfolding e decrypt_def b64 decrypt_buffer_def subarray_def Let_def
    using ls li ae by (simp add: key_def)
qed

lemma decrypt_encrypt:
  assumes "codec_lib_ok L" and "utf8_decode L (utf8_encode L p) = p"
  shows "decrypt C L (fst (encrypt C L E p w)) = Inr p"
  using decrypt_encrypt_general[OF assms(1)] assms(2) by simp

lemma utf8_lib_codec_ok: "codec_lib_ok utf8_lib"
  using ref_lib_codec_ok
  by (simp add: codec_lib_ok_def base64_roundtrip_def kdf_length_def aead_correct_def utf8_lib_def)

lemma utf8_lib_replaces:
  "utf8_decode utf8_lib (utf8_encode utf8_lib lone_surrogate) = replaced_surrogate"
proof -
  show ?thesis
    by (simp add: utf8_lib_def ref_lib_def lone_surrogate_def replaced_surrogate_def
        char_of_eq_iff take_bit_eq_mod)
qed

subsection \<open>What each step adds to the trace\<close>

lemma encrypt_world: "snd (encrypt C L E txt w) = w\<lparr>consumed := consumed w + 32\<rparr>"
  by (simp add: encrypt_def randomBytes_def Let_def split: prod.splits)

lemma createLogEntry_world: "snd (createLogEntry C L E command w) = w\<lparr>consumed := consumed w + 32\<rparr>"
  by (simp add: createLogEntry_def encrypt_world)

lemma logTamperingWarning_world:
  "snd (logTamperingWarning C L E t w) = w\<lparr>consumed := consumed w + 32\<rparr>"
  by (simp add: logTamperingWarning_def encrypt_world)

lemma saveToRepo_trace:
  "saveToRepo C L b w = (r, w') \<Longrightarrow>
     trace w' = trace w @ (case r of None \<Rightarrow> [Saved b] | Some e \<Rightarrow> [])"
  by (auto simp: saveToRepo_def log_event_def Let_def
      split: sum.splits json.splits if_splits option.splits)

lemma copyHtmlViewer_trace: "copyHtmlViewer C L w = (r, w') \<Longrightarrow> trace w' = trace w"
  by (auto simp: copyHtmlViewer_def Let_def split: sum.splits if_splits)

lemma pullFromGitHub_trace: "pullFromGitHub C L E w = (r, w') \<Longrightarrow> trace w' = trace w"
  by (auto simp: pullFromGitHub_def Let_def split: prod.splits if_splits)

lemma execSudo_trace:
  "execSudo E args w = (out, w') \<Longrightarrow> trace w' = trace w @ [ExecSudo args]"
  by (auto simp: execSudo_def log_event_def split: child_result.splits)

lemma reportNewTampering_trace:
  "reportNewTampering C L E already ts w = (r, w') \<Longrightarrow>
     \<exists>saved. trace w' = trace w @ map Saved saved"
proof (induction ts arbitrary: w)
  case Nil
  then show ?case by simp
next
  case (Cons t ts)
  show ?case
  proof (cases "substring0 (hash t) 7 \<notin> already")
    case False
    with Cons show ?thesis by simp
  next
    case True
    obtain b w1 where l: "logTamperingWarning C L E t w = (b, w1)"
      by (cases "logTamperingWarning C L E t w")
    then have w1: "trace w1 = trace w"
      using logTamperingWarning_world[of C L E t w] by simp
    obtain r2 w2 where s: "saveToRepo C L b w1 = (r2, w2)"
      by (cases "saveToRepo C L b w1")
    show ?thesis
    proof (cases r2)
      case None
      then have t2: "trace w2 = trace w @ [Saved b]"
        using saveToRepo_trace[OF s] w1 by simp
      from Cons.prems True l s None
      have "reportNewTampering C L E already ts w2 = (r, w')" by simp
      from Cons.IH[OF this] obtain saved where "trace w' = trace w2 @ map Saved saved" ..
      then have "trace w' = trace w @ map Saved (b # saved)" using t2 by simp
      then show ?thesis ..
    next
      case (Some e)
      then have "trace w2 = trace w" using saveToRepo_trace[OF s] w1 by simp
      moreover from Cons.prems True l s Some have "w' = w2" by simp
      ultimately have "trace w' = trace w @ map Saved []" by simp
      then show ?thesis ..
    qed
  qed
qed

lemma scanAndReport_trace:
  "scanAndReport C L E w = (r, w') \<Longrightarrow> \<exists>saved. trace w' = trace w @ map Saved saved"
proof -
  assume a: "scanAndReport C L E w = (r, w')"
  show ?thesis
  proof (cases "checkForTampering C L E w")
    case (Inl e)
    with a have "trace w' = trace w @ map Saved []" by (simp add: scanAndReport_def)
    then show ?thesis ..
  next
    case (Inr ts)
    show ?thesis
    proof (cases "length ts > 0")
      case True
      with a Inr have "reportNewTampering C L E (getLoggedTamperCommits C L w) ts w = (r, w')"
        by (simp add: scanAndReport_def Let_def)
      then show ?thesis by (rule reportNewTampering_trace)
    next
      case False
      with a Inr have "trace w' = trace w @ map Saved []" by (simp add: scanAndReport_def Let_def)
      then show ?thesis ..
    qed
  qed
qed

lemma logPushExec_trace:
  assumes "logPushExec C L E args w = (out, w')"
  shows "\<exists>saved.
           (trace w' = trace w @ map Saved saved \<and> (\<exists>e. out = Rejected e)) \<or>
           (trace w' = trace w @ map Saved saved @ [Pushed False] \<and> out = Exit 1) \<or>
           trace w' = trace w @ map Saved saved @ [Pushed True, ExecSudo args]"
proof -
  obtain b w1 where c: "createLogEntry C L E (join_args args) w = (b, w1)"
    by (cases "createLogEntry C L E (join_args args) w")
  then have t1: "trace w1 = trace w" using createLogEntry_world[of C L E "join_args args" w] by simp
  obtain r2 w2 where s: "saveToRepo C L b w1 = (r2, w2)" by (cases "saveToRepo C L b w1")
  show ?thesis
  proof (cases r2)
    case (Some e)
    then have "trace w2 = trace w" using saveToRepo_trace[OF s] t1 by simp
    moreover from assms c s Some have "out = Rejected e \<and> w' = w2" by (simp add: logPushExec_def)
    ultimately have "trace w' = trace w @ map Saved [] \<and> out = Rejected e" by simp
    then show ?thesis by blast
  next
    case None
    then have t2: "trace w2 = trace w @ map Saved [b]" using saveToRepo_trace[OF s] t1 by simp
    obtain r3 w3 where h: "copyHtmlViewer C L w2 = (r3, w3)" by (cases "copyHtmlViewer C L w2")
    then have t3: "trace w3 = trace w @ map Saved [b]" using copyHtmlViewer_trace[OF h] t2 by simp
    show ?thesis
    proof (cases r3)
      case (Some e)
      with assms c s None h have "out = Rejected e \<and> w' = w3" by (simp add: logPushExec_def)
      with t3 have "trace w' = trace w @ map Saved [b] \<and> out = Rejected e" by simp
      then show ?thesis by blast
    next
      case N3: None
      show ?thesis
      proof (cases "pushToGitHub C E w3")
        case (Inl e)
        with assms c s None h N3 have "out = Rejected e \<and> w' = w3" by (simp add: logPushExec_def)
        with t3 have "trace w' = trace w @ map Saved [b] \<and> out = Rejected e" by simp
        then show ?thesis by blast
      next
        case (Inr ok)
        show ?thesis
        proof (cases ok)
          case False
          with assms c s None h N3 Inr have "out = Exit 1 \<and> w' = log_event (Pushed False) w3"
            by (simp add: logPushExec_def Let_def)
          with t3 have "trace w' = trace w @ map Saved [b] @ [Pushed False] \<and> out = Exit 1"
            by (simp add: log_event_def)
          then show ?thesis by blast
        next
          case True
          with assms c s None h N3 Inr
          have "execSudo E args (log_event (Pushed True) w3) = (out, w')"
            by (simp add: logPushExec_def Let_def)
          from execSudo_trace[OF this] t3
          have "trace w' = trace w @ map Saved [b] @ [Pushed True, ExecSudo args]"
            by (simp add: log_event_def)
          then show ?thesis by blast
        qed
      qed
    qed
  qed
qed

lemma main_trace:
  assumes "main C L E args w = (out, w')"
  shows "(trace w' = trace w \<and>
            (length args = 0 \<and> out = Exit 1 \<or>
             length args > 0 \<and> \<not> confirmCommand (stdin_answer E) \<and> out = Exit 0 \<or>
             (\<exists>e. out = Rejected e))) \<or>
         (trace w' = trace w @ [Pulled False] \<and> out = Exit 1) \<or>
         (\<exists>saved.
            (trace w' = trace w @ Pulled True # map Saved saved \<and> (\<exists>e. out = Rejected e)) \<or>
            (trace w' = trace w @ Pulled True # map Saved saved @ [Pushed False] \<and> out = Exit 1) \<or>
            trace w' = trace w @ Pulled True # map Saved saved @ [Pushed True, ExecSudo args])"
proof -
  consider (noargs) "length args = 0"
    | (declined) "length args > 0" "\<not> confirmCommand (stdin_answer E)"
    | (confirmed) "length args > 0" "confirmCommand (stdin_answer E)"
    by auto
  then show ?thesis
  proof cases
    case noargs
    with assms have "out = Exit 1 \<and> w' = w" by (simp add: main_def)
    with noargs show ?thesis by simp
  next
    case declined
    with assms have "out = Exit 0 \<and> w' = w" by (simp add: main_def)
    with declined show ?thesis by simp
  next
    case confirmed
    then have False: "\<not> (length args = 0 \<or> \<not> confirmCommand (stdin_answer E))" by simp
  obtain r1 w1 where p: "pullFromGitHub C L E w = (r1, w1)" by (cases "pullFromGitHub C L E w")
  then have t1: "trace w1 = trace w" by (rule pullFromGitHub_trace)
  show ?thesis
  proof (cases r1)
    case (Inl e)
    with assms confirmed p have "out = Rejected e \<and> w' = w1" by (simp add: main_def)
    with t1 show ?thesis by simp
  next
    case (Inr ok)
    show ?thesis
    proof (cases ok)
      case False
      with assms confirmed p t1 Inr
      have "out = Exit 1 \<and> w' = log_event (Pulled False) w1" by (simp add: main_def Let_def)
      with t1 show ?thesis by (simp add: log_event_def)
    next
      case True
      define w2 where "w2 = log_event (Pulled True) w1"
      have t2: "trace w2 = trace w @ [Pulled True]" by (simp add: w2_def log_event_def t1)
      obtain r3 w3 where sc: "scanAndReport C L E w2 = (r3, w3)" by (cases "scanAndReport C L E w2")
      from scanAndReport_trace[OF sc] obtain saved1 where
        t3: "trace w3 = trace w @ Pulled True # map Saved saved1" using t2 by auto
      show ?thesis
      proof (cases r3)
        case (Some e)
        with assms confirmed p Inr True sc have "out = Rejected e \<and> w' = w3"
          by (simp add: main_def Let_def w2_def)
        with t3 show ?thesis by blast
      next
        case None
        with assms confirmed p Inr True sc have "logPushExec C L E args w3 = (out, w')"
          by (simp add: main_def Let_def w2_def)
        from logPushExec_trace[OF this] obtain saved2 where
          "(trace w' = trace w3 @ map Saved saved2 \<and> (\<exists>e. out = Rejected e)) \<or>
           (trace w' = trace w3 @ map Saved saved2 @ [Pushed False] \<and> out = Exit 1) \<or>
           trace w' = trace w3 @ map Saved saved2 @ [Pushed True, ExecSudo args]" ..
        then have
          "(trace w' = trace w @ Pulled True # map Saved (saved1 @ saved2) \<and> (\<exists>e. out = Rejected e)) \<or>
           (trace w' = trace w @ Pulled True # map Saved (saved1 @ saved2) @ [Pushed False] \<and> out = Exit 1) \<or>
           trace w' = trace w @ Pulled True # map Saved (saved1 @ saved2) @ [Pushed True, ExecSudo args]"
          using t3 by auto
        then show ?thesis by blast
      qed
    qed
  qed
  qed
qed

subsection \<open>Evaluating concrete runs\<close>

lemma ref_lib_join: "join ref_lib a b = a @ ''/'' @ b"
  by (simp add: ref_lib_def)

lemma sample_parents:
  "parent ''/home/alice/.sudo-audit-logs/audit-log.json'' = ''/home/alice/.sudo-audit-logs''"
  "parent ''/home/alice/.sudo-audit-logs/index.html'' = ''/home/alice/.sudo-audit-logs''"
  "parent ''/home/alice/.sudo-audit-logs/.nojekyll'' = ''/home/alice/.sudo-audit-logs''"
  by (simp_all add: parent_def)

lemmas run_defs = run_def main_def pullFromGitHub_def scanAndReport_def checkForTampering_def
  getLoggedTamperCommits_def logPushExec_def split_def createLogEntry_world
  logTamperingWarning_world saveToRepo_def copyHtmlViewer_def pushToGitHub_def execSudo_def log_event_def
  existsSync_def mkdirSync_def readFileSync_def writeFileSync_def copyFileSync_def ref_lib_join sample_parents
  sample_config_def sample_env_def fresh_fs_def Let_def

lemma confirm_y: "confirmCommand ''y''" 
  by (simp add: confirmCommand_def toLowerCase_def toLowerCase_char_def)

lemma sample_run:
  "\<exists>b w. run sample_config ref_lib sample_env [''apt'', ''update''] fresh_fs = (Exit 0, w) \<and>
     trace w = [Pulled True, Saved b, Pushed True, ExecSudo [''apt'', ''update'']]"
  by (simp add: run_defs confirm_y)

lemma sample_run_pushfail:
  "\<exists>b w. run sample_config ref_lib (sample_env\<lparr>git_push := False\<rparr>) [''apt'', ''update''] fresh_fs = (Exit 1, w) \<and>
     trace w = [Pulled True, Saved b, Pushed False]"
  by (simp add: run_defs confirm_y)

subsection \<open>Appending to the entry store\<close>


lemma new_record_wf: "wf_json (new_record n b)"
  by (simp add: new_record_def)

lemma json_parse_array_wf:
  "json_lib_ok L \<Longrightarrow> json_parse L s = Some (JArr records) \<Longrightarrow> \<forall>x \<in> set records. wf_json x"
  by (auto simp: json_lib_ok_def dest!: spec)

lemma json_parse_stringify:
  "json_lib_ok L \<Longrightarrow> wf_json v \<Longrightarrow> json_parse L (json_stringify L v n) = Some v"
  by (simp add: json_lib_ok_def)

lemma store_records_wf:
  assumes "json_lib_ok L"
  shows "wf_json (JArr (store_records C L f @ [new_record n b]))"
proof -
  have "\<forall>x \<in> set (store_records C L f). wf_json x"
  proof (cases "store_document C L f")
    case None
    then show ?thesis by (simp add: store_records_def)
  next
    case (Some v)
    then obtain s where p: "json_parse L s = Some v"
      by (auto simp: store_document_def split: option.splits node.splits)
    show ?thesis
    proof (cases v)
      case (JArr records)
      with p have "json_parse L s = Some (JArr records)" by simp
      from json_parse_array_wf[OF assms this] Some JArr show ?thesis
        by (simp add: store_records_def)
    qed (simp_all add: store_records_def Some)
  qed
  then show ?thesis by (simp add: new_record_wf)
qed

lemma mkdirSync_keeps:
  assumes "mkdirSync f p = Inr g"
  shows "(\<forall>q. f q \<noteq> None \<longrightarrow> g q = f q) \<and> (\<forall>q. g q = f q \<or> g q = Some Dir)"
proof -
  from assms have nf: "\<forall>a \<in> set (ancestors p @ [p]). \<not> is_file f a"
    and g: "g = (\<lambda>q. if q \<in> set (ancestors p @ [p]) then Some Dir else f q)"
    by (auto simp: mkdirSync_def split: if_splits)
  have "g q = f q" if "f q \<noteq> None" for q
  proof (cases "q \<in> set (ancestors p @ [p])")
    case True
    with nf have "\<not> is_file f q" by blast
    with that have "f q = Some Dir"
      by (auto simp: is_file_def split: option.splits node.splits)
    with True g show ?thesis by simp
  next
    case False
    with g show ?thesis by simp
  qed
  moreover have "g q = f q \<or> g q = Some Dir" for q
    using g by simp
  ultimately show ?thesis by blast
qed

lemma writeFileSync_Inr:
  "writeFileSync f p s = Inr g \<longleftrightarrow>
     f p \<noteq> Some Dir \<and> f (parent p) = Some Dir \<and> g = f(p \<mapsto> File s)"
  by (auto simp: writeFileSync_def split: option.splits node.splits)

lemma saveToRepo_cases:
  assumes "saveToRepo C L b w = (None, w')"
  shows "\<exists>f1 records.
           (\<forall>q. fs w q \<noteq> None \<longrightarrow> f1 q = fs w q) \<and>
           f1 (logFilePath C L) = fs w (logFilePath C L) \<and>
           (case fs w (logFilePath C L) of
              Some (File s) \<Rightarrow> (case json_parse L s of None \<Rightarrow> JArr [] | Some v \<Rightarrow> v)
            | _ \<Rightarrow> JArr []) = JArr records \<and>
           fs w' = f1(logFilePath C L \<mapsto>
                     File (json_stringify L (JArr (records @ [new_record (length records) b])) 2))"
proof -
  obtain f1 where m: "(if \<not> existsSync (fs w) (REPO_PATH C) then mkdirSync (fs w) (REPO_PATH C)
                       else Inr (fs w)) = Inr f1"
    using assms by (auto simp: saveToRepo_def split: sum.splits)
  have keep: "\<forall>q. fs w q \<noteq> None \<longrightarrow> f1 q = fs w q"
    and grow: "\<forall>q. f1 q = fs w q \<or> f1 q = Some Dir"
    using m mkdirSync_keeps[of "fs w" "REPO_PATH C" f1] by (auto split: if_splits)
  define logs where "logs =
     (if existsSync f1 (logFilePath C L)
      then (case readFileSync f1 (logFilePath C L) of
              Inl e \<Rightarrow> JArr []
            | Inr s \<Rightarrow> (case json_parse L s of None \<Rightarrow> JArr [] | Some v \<Rightarrow> v))
      else JArr [])"
  have "\<exists>records f2. logs = JArr records \<and>
          writeFileSync f1 (logFilePath C L)
            (json_stringify L (JArr (records @ [new_record (length records) b])) 2) = Inr f2 \<and>
          fs w' = f2"
    using assms m
    unfolding saveToRepo_def logs_def logFilePath_def log_event_def Let_def
    by (auto split: sum.splits json.splits)
  then obtain records f2 where
    l: "logs = JArr records" and
    wr: "writeFileSync f1 (logFilePath C L)
           (json_stringify L (JArr (records @ [new_record (length records) b])) 2) = Inr f2" and
    w': "fs w' = f2"
    by blast
  from wr have nd: "f1 (logFilePath C L) \<noteq> Some Dir"
    and f2: "f2 = f1(logFilePath C L \<mapsto>
               File (json_stringify L (JArr (records @ [new_record (length records) b])) 2))"
    by (simp_all add: writeFileSync_Inr)
  have same: "f1 (logFilePath C L) = fs w (logFilePath C L)"
    using grow nd by metis
  have "(case fs w (logFilePath C L) of
              Some (File s) \<Rightarrow> (case json_parse L s of None \<Rightarrow> JArr [] | Some v \<Rightarrow> v)
            | _ \<Rightarrow> JArr []) = JArr records"
    using l same nd unfolding logs_def
    by (auto simp: existsSync_def readFileSync_def split: option.splits node.splits)
  with keep same w' f2 show ?thesis by blast
qed

lemma saveToRepo_success:
  assumes "json_lib_ok L" and "saveToRepo C L b w = (None, w')"
  shows "store_document C L (fs w') =
           Some (JArr (store_records C L (fs w) @ [new_record (length (store_records C L (fs w))) b]))"
    and "\<And>p. fs w p \<noteq> None \<Longrightarrow> fs w' p \<noteq> None"
proof -
  from saveToRepo_cases[OF assms(2)] obtain f1 records where
    keep: "\<forall>q. fs w q \<noteq> None \<longrightarrow> f1 q = fs w q" and
    l: "(case fs w (logFilePath C L) of
              Some (File s) \<Rightarrow> (case json_parse L s of None \<Rightarrow> JArr [] | Some v \<Rightarrow> v)
            | _ \<Rightarrow> JArr []) = JArr records" and
    w': "fs w' = f1(logFilePath C L \<mapsto>
                     File (json_stringify L (JArr (records @ [new_record (length records) b])) 2))"
    by blast
  have r: "store_records C L (fs w) = records"
    using l by (auto simp: store_records_def store_document_def
        split: option.splits node.splits json.splits)
  show "store_document C L (fs w') =
           Some (JArr (store_records C L (fs w) @ [new_record (length (store_records C L (fs w))) b]))"
    using json_parse_stringify[OF assms(1) store_records_wf[OF assms(1)], of C "fs w"] w' r
    by (simp add: store_document_def)
  show "\<And>p. fs w p \<noteq> None \<Longrightarrow> fs w' p \<noteq> None"
    using keep w' by auto
qed

lemma saveToRepo_possible:
  assumes "fs w (REPO_PATH C) = Some Dir" and "fs w (parent (logFilePath C L)) = Some Dir"
    and "store_document C L (fs w) = Some (JArr xs) \<or> store_empty C L (fs w)"
  shows "\<exists>w'. saveToRepo C L b w = (None, w') \<and> fs w' (REPO_PATH C) = Some Dir \<and>
           fs w' (parent (logFilePath C L)) = Some Dir"
  using assms
  by (auto simp: saveToRepo_def store_document_def store_empty_def logFilePath_def
      log_event_def Let_def existsSync_def readFileSync_def writeFileSync_def
      split: sum.splits json.splits if_splits option.splits node.splits)

lemma store_empty_records: "store_empty C L f \<Longrightarrow> store_records C L f = []"
  by (auto simp: store_empty_def store_records_def store_document_def split: option.splits node.splits)

lemma saveToRepo_records:
  assumes "json_lib_ok L" and "saveToRepo C L b w = (None, w')"
  shows "store_records C L (fs w') =
           store_records C L (fs w) @ [new_record (length (store_records C L (fs w))) b]"
  using saveToRepo_success(1)[OF assms] by (simp add: store_records_def)

lemma saveAll_records:
  assumes "json_lib_ok L"
  shows "saveAll C L bs w = (None, w') \<Longrightarrow>
         store_records C L (fs w') =
           store_records C L (fs w) @
             map (\<lambda>(i, b). new_record i b) (enumerate (length (store_records C L (fs w))) bs)"
proof (induction bs arbitrary: w)
  case Nil
  then show ?case by simp
next
  case (Cons b bs)
  obtain r1 w1 where s: "saveToRepo C L b w = (r1, w1)" by (cases "saveToRepo C L b w")
  with Cons.prems have r1: "r1 = None" by (cases r1) simp_all
  with Cons.prems s have rest: "saveAll C L bs w1 = (None, w')" by simp
  from s r1 have "saveToRepo C L b w = (None, w1)" by simp
  from saveToRepo_records[OF assms this] Cons.IH[OF rest]
  show ?case by simp
qed

lemma saveAll_possible:
  assumes "json_lib_ok L"
  shows "fs w (REPO_PATH C) = Some Dir \<Longrightarrow> fs w (parent (logFilePath C L)) = Some Dir \<Longrightarrow>
         store_document C L (fs w) = Some (JArr xs) \<or> store_empty C L (fs w) \<Longrightarrow>
         \<exists>w'. saveAll C L bs w = (None, w')"
proof (induction bs arbitrary: w xs)
  case Nil
  then show ?case by simp
next
  case (Cons b bs)
  from saveToRepo_possible[OF Cons.prems, of b] obtain w1 where
    s: "saveToRepo C L b w = (None, w1)" and
    d: "fs w1 (REPO_PATH C) = Some Dir" "fs w1 (parent (logFilePath C L)) = Some Dir"
    by blast
  from saveToRepo_success(1)[OF assms s] obtain ys where
    "store_document C L (fs w1) = Some (JArr ys)" by blast
  then have "store_document C L (fs w1) = Some (JArr ys) \<or> store_empty C L (fs w1)" by simp
  from Cons.IH[OF d this] s show ?case by simp
qed

subsection \<open>Recognising a tamper-warning entry\<close>

lemma match_commit_skip: "CHR ''c'' \<notin> set pre \<Longrightarrow> match_commit (pre @ s) = match_commit s"
  by (induction pre) (auto simp: match_here_def startsWith_def Let_def)

lemma match_commit_here:
  "length h = 7 \<Longrightarrow> list_all is_hex_lower h \<Longrightarrow> match_commit (''commit '' @ h @ rest) = Some h"
  by (simp add: match_here_def startsWith_def Let_def)

lemma digit_char_not_c: "d < 10 \<Longrightarrow> digit_char d \<noteq> CHR ''c''"
proof
  assume d: "d < 10" and "digit_char d = CHR ''c''"
  then have "(of_char (digit_char d) :: nat) = of_char (CHR ''c'')" by simp
  with d show False by (simp add: digit_char_def)
qed

lemma number_digits_no_c: "CHR ''c'' \<notin> set (number_digits n)"
proof (induction n rule: number_digits.induct)
  case (1 n)
  show ?case
  proof (cases "n < 10")
    case True
    then show ?thesis using digit_char_not_c[of n] by (subst number_digits.simps) auto
  next
    case False
    have "n mod 10 < 10" by simp
    with False 1 show ?thesis
      using digit_char_not_c[of "n mod 10"] by (subst number_digits.simps) auto
  qed
qed

lemma number_toString_no_c: "CHR ''c'' \<notin> set (number_toString i)"
  by (simp add: number_toString_def number_digits_no_c)

lemma includes_str_prefix: "p \<noteq> [] \<Longrightarrow> includes_str (p @ r) p"
  by (cases p) (simp_all add: startsWith_def)

lemma tamper_command_split:
  "tamper_command t =
     (''[TAMPERING DETECTED] '' @ number_toString (deletions t) @ '' log entries deleted in '') @
     (''commit '' @ substring0 (hash t) 7 @ ('' by '' @ author t))"
  by (simp add: tamper_command_def)

lemma match_tamper_command:
  assumes "wellformed_hash (hash t)"
  shows "match_commit (tamper_command t) = Some (substring0 (hash t) 7)"
proof -
  have "CHR ''c'' \<notin> set (''[TAMPERING DETECTED] '' @ number_toString (deletions t) @ '' log entries deleted in '')"
    using number_toString_no_c[of "deletions t"] by simp
  then have "match_commit (tamper_command t) =
      match_commit (''commit '' @ substring0 (hash t) 7 @ ('' by '' @ author t))"
    unfolding tamper_command_split by (rule match_commit_skip)
  also have "\<dots> = Some (substring0 (hash t) 7)"
    using assms by (intro match_commit_here) (simp_all add: wellformed_hash_def substring0_def)
  finally show ?thesis .
qed

lemma includes_tamper_command: "includes_str (tamper_command t) ''[TAMPERING DETECTED]''"
proof -
  have eq: "tamper_command t = ''[TAMPERING DETECTED]'' @
      ('' '' @ number_toString (deletions t) @
       '' log entries deleted in commit '' @ substring0 (hash t) 7 @ '' by '' @ author t)"
    by (simp add: tamper_command_def)
  show ?thesis
    unfolding eq by (rule includes_str_prefix) simp
qed

lemma tamper_command_nonempty: "tamper_command t \<noteq> []"
  by (simp add: tamper_command_def)

lemma entry_object_wf: "wf_json exitCode \<Longrightarrow> wf_json (entry_object E command exitCode output)"
  by (simp add: entry_object_def split: option.splits)

lemma property_command: "property (entry_object E command exitCode output) ''command'' = Some (JStr command)"
  by (simp add: property_def entry_object_def split: option.splits)

lemma decrypt_encrypt_json:
  assumes "codec_lib_ok L" and "utf8_roundtrip_json L"
  shows "decrypt C L (fst (encrypt C L E (json_stringify L v n) w)) = Inr (json_stringify L v n)"
  using assms(2) by (intro decrypt_encrypt[OF assms(1)]) (simp add: utf8_roundtrip_json_def)

lemma loggedHash_warning:
  assumes "codec_lib_ok L" and "utf8_roundtrip_json L" and "json_lib_ok L"
    and "wellformed_hash (hash t)"
  shows "loggedHash C L (new_record n (fst (logTamperingWarning C L E t w))) =
           Some (substring0 (hash t) 7)"
proof -
  have p: "property (new_record n b) ''encrypted'' = Some (JStr b)" for b
    by (simp add: property_def new_record_def)
  have j: "json_parse L (json_stringify L (entry_object E c x out) k) = Some (entry_object E c x out)"
    if "wf_json x" for c x out k
    using assms(3) that by (intro json_parse_stringify) (simp_all add: entry_object_wf)
  show ?thesis
    unfolding loggedHash_def p logTamperingWarning_def
    by (simp add: decrypt_value_def decrypt_encrypt_json[OF assms(1,2)] j property_command
        tamper_command_nonempty includes_tamper_command match_tamper_command[OF assms(4)])
qed

lemma collectHashes_eq:
  "collectHashes C L logs acc = acc \<union> {h. \<exists>x \<in> set logs. loggedHash C L x = Some h}"
  by (induction logs arbitrary: acc) (auto split: option.splits)

lemma getLoggedTamperCommits_records:
  "getLoggedTamperCommits C L w =
     {h. \<exists>x \<in> set (store_records C L (fs w)). loggedHash C L x = Some h}"
  by (auto simp: getLoggedTamperCommits_def store_records_def store_document_def logFilePath_def
      collectHashes_eq existsSync_def readFileSync_def Let_def
      split: option.splits node.splits json.splits sum.splits)

subsection \<open>Reporting twice\<close>

lemma reportNewTampering_all_logged:
  "\<forall>t \<in> set ts. substring0 (hash t) 7 \<in> A \<Longrightarrow> reportNewTampering C L E A ts w = (None, w)"
  by (induction ts) simp_all

lemma logTamperingWarning_fs: "fs (snd (logTamperingWarning C L E t w)) = fs w"
  by (simp add: logTamperingWarning_world)

lemma reportNewTampering_logged:
  assumes "codec_lib_ok L" and "utf8_roundtrip_json L" and "json_lib_ok L"
  shows "\<forall>t \<in> set ts. wellformed_hash (hash t) \<Longrightarrow>
         reportNewTampering C L E A ts w = (None, w') \<Longrightarrow>
         (\<exists>new. store_records C L (fs w') = store_records C L (fs w) @ new \<and>
            (\<forall>t \<in> set ts. substring0 (hash t) 7 \<in> A \<or>
               (\<exists>x \<in> set new. loggedHash C L x = Some (substring0 (hash t) 7)))) \<and>
         (\<forall>p. fs w p \<noteq> None \<longrightarrow> fs w' p \<noteq> None)"
proof (induction ts arbitrary: w)
  case Nil
  then show ?case by simp
next
  case (Cons t ts)
  have wf: "\<forall>t \<in> set ts. wellformed_hash (hash t)" and wft: "wellformed_hash (hash t)"
    using Cons.prems(1) by simp_all
  show ?case
  proof (cases "substring0 (hash t) 7 \<in> A")
    case True
    with Cons.prems(2) have "reportNewTampering C L E A ts w = (None, w')" by simp
    from Cons.IH[OF wf this] True show ?thesis by auto
  next
    case False
    obtain b w1 where l: "logTamperingWarning C L E t w = (b, w1)"
      by (cases "logTamperingWarning C L E t w")
    then have f1: "fs w1 = fs w" using logTamperingWarning_fs[of C L E t w] by simp
    have b: "b = fst (logTamperingWarning C L E t w)" using l by simp
    obtain r2 w2 where s: "saveToRepo C L b w1 = (r2, w2)" by (cases "saveToRepo C L b w1")
    from Cons.prems(2) False l s have r2: "r2 = None"
      by (cases r2) (simp_all add: Let_def)
    with Cons.prems(2) False l s have rest: "reportNewTampering C L E A ts w2 = (None, w')"
      by (simp add: Let_def)
    from s r2 have s': "saveToRepo C L b w1 = (None, w2)" by simp
    define x where "x = new_record (length (store_records C L (fs w))) b"
    have rec2: "store_records C L (fs w2) = store_records C L (fs w) @ [x]"
      using saveToRepo_records[OF assms(3) s'] f1 by (simp add: x_def)
    have hx: "loggedHash C L x = Some (substring0 (hash t) 7)"
      unfolding x_def b by (rule loggedHash_warning[OF assms wft])
    have keep2: "\<forall>p. fs w p \<noteq> None \<longrightarrow> fs w2 p \<noteq> None"
      using saveToRepo_success(2)[OF assms(3) s'] f1 by simp
    from Cons.IH[OF wf rest] obtain new where
      n1: "store_records C L (fs w') = store_records C L (fs w2) @ new" and
      n2: "\<forall>t \<in> set ts. substring0 (hash t) 7 \<in> A \<or>
             (\<exists>x \<in> set new. loggedHash C L x = Some (substring0 (hash t) 7))" and
      n3: "\<forall>p. fs w2 p \<noteq> None \<longrightarrow> fs w' p \<noteq> None"
      by blast
    have "store_records C L (fs w') = store_records C L (fs w) @ (x # new)"
      using n1 rec2 by simp
    moreover have "\<forall>u \<in> set (t # ts). substring0 (hash u) 7 \<in> A \<or>
             (\<exists>y \<in> set (x # new). loggedHash C L y = Some (substring0 (hash u) 7))"
      using n2 hx by auto
    moreover have "\<forall>p. fs w p \<noteq> None \<longrightarrow> fs w' p \<noteq> None"
      using keep2 n3 by blast
    ultimately show ?thesis by blast
  qed
qed

lemma inspectDiff_hash: "inspectDiff c diff = Some t \<Longrightarrow> hash t = commit_hash c"
  by (auto simp: inspectDiff_counts split: if_splits)

lemma checkCommits_hash:
  "t \<in> set (checkCommits C E cs) \<Longrightarrow> \<exists>c \<in> set cs. hash t = commit_hash c"
  by (induction cs) (auto split: option.splits dest: inspectDiff_hash)

lemma checkCommits_same_history:
  "git_show E' = git_show E \<Longrightarrow> checkCommits C E' cs = checkCommits C E cs"
  by (induction cs) (auto split: option.splits)

lemma checkForTampering_cases:
  assumes "checkForTampering C L E w = Inr ts" and "ts \<noteq> []"
  shows "existsSync (fs w) (join L (REPO_PATH C) ''.git'') \<and>
         (\<exists>commits. git_log E (LOG_FILE C) = Some commits \<and> ts = checkCommits C E commits)"
  using assms by (auto simp: checkForTampering_def split: if_splits option.splits)

lemma checkForTampering_present:
  assumes "checkForTampering C L E w = Inr ts"
    and "existsSync (fs w) (join L (REPO_PATH C) ''.git'')"
    and "git_log E (LOG_FILE C) = Some commits"
  shows "ts = checkCommits C E commits"
  using assms by (auto simp: checkForTampering_def split: if_splits option.splits)

lemma scan_twice:
  assumes libs: "codec_lib_ok L" "utf8_roundtrip_json L" "json_lib_ok L"
    and hashes: "\<forall>commits. git_log E (LOG_FILE C) = Some commits \<longrightarrow>
                   (\<forall>c \<in> set commits. wellformed_hash (commit_hash c))"
    and same: "git_log E' = git_log E" "git_show E' = git_show E"
    and first: "scanAndReport C L E w = (None, w1)"
  shows "snd (scanAndReport C L E' w1) = w1"
    and "\<forall>ts. checkForTampering C L E w = Inr ts \<longrightarrow>
           (\<forall>t \<in> set ts. substring0 (hash t) 7 \<in> getLoggedTamperCommits C L w1)"
proof -
  obtain ts1 where c1: "checkForTampering C L E w = Inr ts1"
    using first by (cases "checkForTampering C L E w") (simp_all add: scanAndReport_def)
  define A where "A = getLoggedTamperCommits C L w"
  have r1: "reportNewTampering C L E A ts1 w = (None, w1)"
    using first c1 by (cases ts1) (simp_all add: scanAndReport_def Let_def A_def)
  have wf1: "\<forall>t \<in> set ts1. wellformed_hash (hash t)"
  proof (cases "ts1 = []")
    case True
    then show ?thesis by simp
  next
    case False
    from checkForTampering_cases[OF c1 False] obtain commits where
      g: "git_log E (LOG_FILE C) = Some commits" and t: "ts1 = checkCommits C E commits" by blast
    show ?thesis
    proof
      fix u assume "u \<in> set ts1"
      with t obtain c where "c \<in> set commits" "hash u = commit_hash c"
        using checkCommits_hash by blast
      with hashes g show "wellformed_hash (hash u)" by auto
    qed
  qed
  from reportNewTampering_logged[OF libs wf1 r1] obtain new where
    n1: "store_records C L (fs w1) = store_records C L (fs w) @ new" and
    n2: "\<forall>t \<in> set ts1. substring0 (hash t) 7 \<in> A \<or>
           (\<exists>x \<in> set new. loggedHash C L x = Some (substring0 (hash t) 7))" and
    n3: "\<forall>p. fs w p \<noteq> None \<longrightarrow> fs w1 p \<noteq> None"
    by blast
  have logged: "\<forall>t \<in> set ts1. substring0 (hash t) 7 \<in> getLoggedTamperCommits C L w1"
    using n1 n2 by (auto simp: A_def getLoggedTamperCommits_records)
  with c1 show "\<forall>ts. checkForTampering C L E w = Inr ts \<longrightarrow>
           (\<forall>t \<in> set ts. substring0 (hash t) 7 \<in> getLoggedTamperCommits C L w1)"
    by simp
  show "snd (scanAndReport C L E' w1) = w1"
  proof (cases "checkForTampering C L E' w1")
    case (Inl e)
    then show ?thesis by (simp add: scanAndReport_def)
  next
    case (Inr ts2)
    show ?thesis
    proof (cases "ts2 = []")
      case True
      with Inr show ?thesis by (simp add: scanAndReport_def)
    next
      case False
      from checkForTampering_cases[OF Inr False] obtain commits where
        e2: "existsSync (fs w1) (join L (REPO_PATH C) ''.git'')" and
        g2: "git_log E' (LOG_FILE C) = Some commits" and
        t2: "ts2 = checkCommits C E' commits" by blast
      have t2': "ts2 = checkCommits C E commits"
        using t2 checkCommits_same_history[OF same(2)] by simp
      have g1: "git_log E (LOG_FILE C) = Some commits" using g2 same(1) by simp
      have "ts1 \<noteq> []"
      proof
        assume "ts1 = []"
        with r1 have "w1 = w" by simp
        with e2 have "existsSync (fs w) (join L (REPO_PATH C) ''.git'')" by simp
        from checkForTampering_present[OF c1 this g1] t2' have "ts1 = ts2" by simp
        with False \<open>ts1 = []\<close> show False by simp
      qed
      from checkForTampering_cases[OF c1 this] g1 have "ts1 = checkCommits C E commits"
        by auto
      with t2' have "ts2 = ts1" by simp
      with logged have "\<forall>t \<in> set ts2. substring0 (hash t) 7 \<in> getLoggedTamperCommits C L w1"
        by simp
      from reportNewTampering_all_logged[OF this]
      show ?thesis using Inr False by (simp add: scanAndReport_def Let_def)
    qed
  qed
qed

subsection \<open>Codec round trip\<close>

text \<open>
  C2, as stated, fails: the string \<open>a\ud800b\<close>, encrypted and decrypted under the same
  password, comes back as \<open>a\ufffdb\<close>. \<open>encrypt\<close> hands the plaintext to the UTF-8
  encoder, which replaces the unpaired surrogate.
\<close>

theorem unpaired_surrogate_counterexample:
  "codec_lib_ok utf8_lib \<and>
   decrypt sample_config utf8_lib
     (fst (encrypt sample_config utf8_lib sample_env lone_surrogate (start fresh_fs))) =
     Inr replaced_surrogate \<and>
   replaced_surrogate \<noteq> lone_surrogate"
  using utf8_lib_codec_ok decrypt_encrypt_general [OF utf8_lib_codec_ok, of sample_config
      sample_env lone_surrogate "start fresh_fs"] utf8_lib_replaces
  by (simp add: replaced_surrogate_def lone_surrogate_def)

text \<open>
  C2, amended. For every plaintext \<open>p\<close> that UTF-8 encoding and decoding return
  unchanged (every string without an unpaired surrogate) and every password \<open>k\<close>,
  decrypting with \<open>k\<close> the blob that \<open>encrypt\<close> produced from \<open>p\<close> under \<open>k\<close> returns
  \<open>p\<close>. The library is assumed to work as documented (\<open>codec_lib_ok\<close>).
\<close>

theorem decrypt_encrypt_roundtrip:
  assumes "codec_lib_ok L" and "utf8_decode L (utf8_encode L p) = p"
  shows "decrypt (C\<lparr>ENCRYPTION_PASSWORD := k\<rparr>) L
           (fst (encrypt (C\<lparr>ENCRYPTION_PASSWORD := k\<rparr>) L E p w)) = Inr p"
  using assms by (rule decrypt_encrypt)

theorem decrypt_encrypt_roundtrip_witness:
  "codec_lib_ok ref_lib \<and>
   utf8_decode ref_lib (utf8_encode ref_lib ''apt update'') = ''apt update'' \<and>
   decrypt (sample_config\<lparr>ENCRYPTION_PASSWORD := ''hunter2''\<rparr>) ref_lib
     (fst (encrypt (sample_config\<lparr>ENCRYPTION_PASSWORD := ''hunter2''\<rparr>) ref_lib sample_env
        ''apt update'' (start Map.empty))) = Inr ''apt update''"
  using decrypt_encrypt_roundtrip [OF ref_lib_codec_ok ref_lib_utf8,
      where p = "''apt update''" and C = sample_config and k = "''hunter2''" and E = sample_env
        and w = "start Map.empty"]
    ref_lib_codec_ok ref_lib_utf8 [of "''apt update''"]
  by simp

subsection \<open>Sample runs\<close>

lemma confirm_n: "\<not> confirmCommand ''n''"
  unfolding confirmCommand_chars by simp

lemma sample_run_declined:
  "run sample_config ref_lib (sample_env\<lparr>stdin_answer := ''n''\<rparr>) [''apt'', ''update''] fresh_fs =
     (Exit 0, start fresh_fs)"
  by (simp add: run_def main_def sample_env_def confirm_n start_def)

lemma sample_pull_fails:
  "pullFromGitHub sample_config ref_lib (sample_env\<lparr>git_pull := (\<lambda>f. (False, f))\<rparr>) (start repo_fs) =
     (Inr False, start repo_fs)"
  by (simp add: pullFromGitHub_def sample_config_def sample_env_def start_def repo_fs_def
      existsSync_def ref_lib_join)

lemma sample_pull_throws:
  "pullFromGitHub sample_config ref_lib sample_env (start Map.empty) =
     (Inl GitConstructError, start Map.empty)"
  by (simp add: pullFromGitHub_def sample_config_def sample_env_def start_def)

lemma clone_pull_fails:
  "pullFromGitHub sample_config ref_lib clone_env (start fresh_fs) =
     (Inr False,
      start (fresh_fs(''/home/alice/.sudo-audit-logs'' \<mapsto> Dir,
                      ''/home/alice/.sudo-audit-logs/.git'' \<mapsto> Dir,
                      ''/home/alice/.sudo-audit-logs/audit-log.json'' \<mapsto> File ''[]'')))"
  by (simp add: pullFromGitHub_def sample_config_def clone_env_def sample_env_def start_def
      fresh_fs_def existsSync_def ref_lib_join)

lemma sample_run_pull_fails:
  "run sample_config ref_lib (sample_env\<lparr>git_pull := (\<lambda>f. (False, f))\<rparr>) [''apt'', ''update''] repo_fs =
     (Exit 1, \<lparr>fs = repo_fs, consumed = 0, trace = [Pulled False]\<rparr>)"
  using sample_pull_fails
  by (simp add: run_def main_def confirm_y log_event_def start_def sample_env_def)

lemma sample_run_push_fails:
  "\<exists>b w. run sample_config ref_lib (sample_env\<lparr>git_push := False\<rparr>) [''apt'', ''update''] fresh_fs =
           (Exit 1, w) \<and>
         trace w = [Pulled True, Saved b, Pushed False]"
  by (simp add: run_defs confirm_y)

subsection \<open>Ordering of push and execution\<close>

text \<open>
  C1. In every invocation \<open>sudo\<close> is spawned only directly after \<open>pushToGitHub\<close> has
  returned \<open>true\<close>, and nothing is spawned before that; when \<open>pushToGitHub\<close> returns
  \<open>false\<close> the process exits with status 1 and \<open>sudo\<close> is never spawned.
\<close>

theorem exec_only_after_push:
  assumes "run C L E args f = (out, w')"
  shows "(\<forall>a. ExecSudo a \<in> set (trace w') \<longrightarrow>
            (\<exists>before. trace w' = before @ [Pushed True, ExecSudo a] \<and>
               (\<forall>b. ExecSudo b \<notin> set before) \<and> Pushed False \<notin> set before)) \<and>
         (Pushed False \<in> set (trace w') \<longrightarrow>
            out = Exit 1 \<and> (\<forall>a. ExecSudo a \<notin> set (trace w')))"
proof -
  from assms have m: "main C L E args \<lparr>fs = f, consumed = 0, trace = []\<rparr> = (out, w')"
    by (simp add: run_def)
  from main_trace[OF m] show ?thesis
    by (elim disjE exE conjE) (auto simp: image_iff)
qed

theorem exec_only_after_push_witness:
  "(\<exists>before. trace (snd (run sample_config ref_lib sample_env [''apt'', ''update''] fresh_fs)) =
       before @ [Pushed True, ExecSudo [''apt'', ''update'']] \<and>
       (\<forall>b. ExecSudo b \<notin> set before) \<and> Pushed False \<notin> set before) \<and>
   fst (run sample_config ref_lib (sample_env\<lparr>git_push := False\<rparr>) [''apt'', ''update''] fresh_fs) = Exit 1 \<and>
   (\<forall>a. ExecSudo a \<notin> set (trace (snd (run sample_config ref_lib (sample_env\<lparr>git_push := False\<rparr>)
       [''apt'', ''update''] fresh_fs))))"
proof -
  obtain b1 w1 where r1: "run sample_config ref_lib sample_env [''apt'', ''update''] fresh_fs = (Exit 0, w1)"
    and t1: "trace w1 = [Pulled True, Saved b1, Pushed True, ExecSudo [''apt'', ''update'']]"
    using sample_run by blast
  obtain b2 w2 where r2: "run sample_config ref_lib (sample_env\<lparr>git_push := False\<rparr>)
      [''apt'', ''update''] fresh_fs = (Exit 1, w2)"
    and t2: "trace w2 = [Pulled True, Saved b2, Pushed False]"
    using sample_run_push_fails by blast
  have e1: "ExecSudo [''apt'', ''update''] \<in> set (trace w1)" using t1 by simp
  have e2: "Pushed False \<in> set (trace w2)" using t2 by simp
  from exec_only_after_push[OF r1] e1 exec_only_after_push[OF r2] e2
  show ?thesis using r1 r2 by simp
qed

subsection \<open>Failure of the pull\<close>

text \<open>
  C7, as stated, fails: the store is not always unchanged by an invocation whose pull
  step fails. With no working copy yet, \<open>pullFromGitHub\<close> clones, which brings the log
  file of the remote repository; when the \<open>addConfig\<close> that follows throws,
  \<open>pullFromGitHub\<close> returns \<open>false\<close> and the process exits, and the log file that was
  absent before now exists.
\<close>

theorem pull_failure_store_changed_counterexample:
  "confirmCommand (stdin_answer clone_env) \<and>
   fst (pullFromGitHub sample_config ref_lib clone_env (start fresh_fs)) = Inr False \<and>
   fst (run sample_config ref_lib clone_env [''apt'', ''update''] fresh_fs) = Exit 1 \<and>
   fresh_fs (logFilePath sample_config ref_lib) = None \<and>
   fs (snd (run sample_config ref_lib clone_env [''apt'', ''update''] fresh_fs))
     (logFilePath sample_config ref_lib) = Some (File ''[]'')"
  using clone_pull_fails
  by (simp add: run_def main_def confirm_y log_event_def start_def clone_env_def sample_env_def
      fresh_fs_def logFilePath_def sample_config_def ref_lib_join)

text \<open>
  C7, amended. When the command is confirmed and the pull step fails, that is,
  \<open>pullFromGitHub\<close> returns \<open>false\<close> or throws, the invocation ends before any log write:
  \<open>saveToRepo\<close> is never called and \<open>sudo\<close> is never spawned, and the program changes
  nothing on the file system, which stays as the failed git command left it. After a
  \<open>false\<close> the process exits with status 1.
\<close>

theorem pull_failure_aborts_before_write:
  assumes "length args > 0" and "confirmCommand (stdin_answer E)"
    and "pullFromGitHub C L E \<lparr>fs = f, consumed = 0, trace = []\<rparr> = (r, w1)"
    and "r \<noteq> Inr True"
  shows "fs (snd (run C L E args f)) = fs w1 \<and>
         (\<forall>b. Saved b \<notin> set (trace (snd (run C L E args f)))) \<and>
         (\<forall>a. ExecSudo a \<notin> set (trace (snd (run C L E args f)))) \<and>
         (r = Inr False \<longrightarrow>
            fst (run C L E args f) = Exit 1 \<and> trace (snd (run C L E args f)) = [Pulled False]) \<and>
         (\<forall>e. r = Inl e \<longrightarrow>
            fst (run C L E args f) = Rejected e \<and> trace (snd (run C L E args f)) = [])"
proof -
  have t: "trace w1 = []" using pullFromGitHub_trace[OF assms(3)] by simp
  show ?thesis
  proof (cases r)
    case (Inl e)
    with assms have "run C L E args f = (Rejected e, w1)"
      by (simp add: run_def main_def)
    with t Inl show ?thesis by simp
  next
    case (Inr ok)
    with assms(4) have "r = Inr False" by simp
    with assms have "run C L E args f = (Exit 1, log_event (Pulled False) w1)"
      by (simp add: run_def main_def Let_def)
    with t \<open>r = Inr False\<close> show ?thesis by (simp add: log_event_def)
  qed
qed

theorem pull_failure_aborts_before_write_witness:
  "pullFromGitHub sample_config ref_lib (sample_env\<lparr>git_pull := (\<lambda>f. (False, f))\<rparr>)
     \<lparr>fs = repo_fs, consumed = 0, trace = []\<rparr> = (Inr False, start repo_fs) \<and>
   fst (run sample_config ref_lib (sample_env\<lparr>git_pull := (\<lambda>f. (False, f))\<rparr>)
          [''apt'', ''update''] repo_fs) = Exit 1 \<and>
   fs (snd (run sample_config ref_lib (sample_env\<lparr>git_pull := (\<lambda>f. (False, f))\<rparr>)
          [''apt'', ''update''] repo_fs)) = repo_fs \<and>
   trace (snd (run sample_config ref_lib (sample_env\<lparr>git_pull := (\<lambda>f. (False, f))\<rparr>)
          [''apt'', ''update''] repo_fs)) = [Pulled False] \<and>
   pullFromGitHub sample_config ref_lib sample_env \<lparr>fs = Map.empty, consumed = 0, trace = []\<rparr> =
     (Inl GitConstructError, start Map.empty) \<and>
   fst (run sample_config ref_lib sample_env [''apt'', ''update''] Map.empty) =
     Rejected GitConstructError \<and>
   trace (snd (run sample_config ref_lib sample_env [''apt'', ''update''] Map.empty)) = []"
proof -
  have a: "length [''apt'', ''update''] > 0" by simp
  have c: "confirmCommand (stdin_answer (sample_env\<lparr>git_pull := (\<lambda>f. (False, f))\<rparr>))"
    by (simp add: sample_env_def confirm_y)
  have p: "pullFromGitHub sample_config ref_lib (sample_env\<lparr>git_pull := (\<lambda>f. (False, f))\<rparr>)
     \<lparr>fs = repo_fs, consumed = 0, trace = []\<rparr> = (Inr False, start repo_fs)"
    using sample_pull_fails by (simp add: start_def)
  have n: "(Inr False :: error + bool) \<noteq> Inr True" by simp
  have c2: "confirmCommand (stdin_answer sample_env)"
    by (simp add: sample_env_def confirm_y)
  have p2: "pullFromGitHub sample_config ref_lib sample_env
     \<lparr>fs = Map.empty, consumed = 0, trace = []\<rparr> = (Inl GitConstructError, start Map.empty)"
    using sample_pull_throws by (simp add: start_def)
  have n2: "(Inl GitConstructError :: error + bool) \<noteq> Inr True" by simp
  from pull_failure_aborts_before_write [OF a c p n]
    pull_failure_aborts_before_write [OF a c2 p2 n2] p p2
  show ?thesis by (simp add: start_def)
qed

subsection \<open>Exit status of an early abort\<close>

text \<open>
  C9, as stated, fails: when the user answers \<open>n\<close> at the prompt the process exits with
  status 0.
\<close>

theorem declined_exit_status_counterexample:
  "\<not> confirmCommand (stdin_answer (sample_env\<lparr>stdin_answer := ''n''\<rparr>)) \<and>
   fst (run sample_config ref_lib (sample_env\<lparr>stdin_answer := ''n''\<rparr>) [''apt'', ''update''] fresh_fs)
     = Exit 0"
  using sample_run_declined by (simp add: confirm_n)

text \<open>
  C9, amended. Declining the confirmation ends the process with exit status 0 and no
  side effect; a pull or a push that returns \<open>false\<close> ends it with exit status 1; in
  none of the three cases is \<open>sudo\<close> spawned.
\<close>

theorem early_abort_exit_status:
  assumes "run C L E args f = (out, w')"
  shows "(length args > 0 \<and> \<not> confirmCommand (stdin_answer E) \<longrightarrow>
            out = Exit 0 \<and> w' = \<lparr>fs = f, consumed = 0, trace = []\<rparr>) \<and>
         (Pulled False \<in> set (trace w') \<longrightarrow>
            out = Exit 1 \<and> (\<forall>a. ExecSudo a \<notin> set (trace w'))) \<and>
         (Pushed False \<in> set (trace w') \<longrightarrow>
            out = Exit 1 \<and> (\<forall>a. ExecSudo a \<notin> set (trace w')))"
proof -
  from assms have m: "main C L E args \<lparr>fs = f, consumed = 0, trace = []\<rparr> = (out, w')"
    by (simp add: run_def)
  have d: "length args > 0 \<and> \<not> confirmCommand (stdin_answer E) \<longrightarrow>
            out = Exit 0 \<and> w' = \<lparr>fs = f, consumed = 0, trace = []\<rparr>"
    using m by (auto simp: main_def)
  from main_trace[OF m] have
    "(Pulled False \<in> set (trace w') \<longrightarrow> out = Exit 1 \<and> (\<forall>a. ExecSudo a \<notin> set (trace w'))) \<and>
     (Pushed False \<in> set (trace w') \<longrightarrow> out = Exit 1 \<and> (\<forall>a. ExecSudo a \<notin> set (trace w')))"
    by (elim disjE exE conjE) (auto simp: image_iff)
  with d show ?thesis by simp
qed

theorem early_abort_exit_status_witness:
  "fst (run sample_config ref_lib (sample_env\<lparr>stdin_answer := ''n''\<rparr>) [''apt'', ''update''] fresh_fs)
     = Exit 0 \<and>
   fst (run sample_config ref_lib (sample_env\<lparr>git_pull := (\<lambda>f. (False, f))\<rparr>)
          [''apt'', ''update''] repo_fs) = Exit 1 \<and>
   fst (run sample_config ref_lib (sample_env\<lparr>git_push := False\<rparr>) [''apt'', ''update''] fresh_fs)
     = Exit 1"
proof -
  have n: "length [''apt'', ''update''] > 0 \<and>
           \<not> confirmCommand (stdin_answer (sample_env\<lparr>stdin_answer := ''n''\<rparr>))"
    by (simp add: confirm_n)
  have 1: "fst (run sample_config ref_lib (sample_env\<lparr>stdin_answer := ''n''\<rparr>)
             [''apt'', ''update''] fresh_fs) = Exit 0"
    using early_abort_exit_status [where C = sample_config and L = ref_lib
        and E = "sample_env\<lparr>stdin_answer := ''n''\<rparr>" and args = "[''apt'', ''update'']"
        and f = fresh_fs, OF surjective_pairing] n
    by blast
  have p: "Pulled False \<in> set (trace (snd (run sample_config ref_lib
             (sample_env\<lparr>git_pull := (\<lambda>f. (False, f))\<rparr>) [''apt'', ''update''] repo_fs)))"
    by (simp add: sample_run_pull_fails)
  have 2: "fst (run sample_config ref_lib (sample_env\<lparr>git_pull := (\<lambda>f. (False, f))\<rparr>)
             [''apt'', ''update''] repo_fs) = Exit 1"
    using early_abort_exit_status [where C = sample_config and L = ref_lib
        and E = "sample_env\<lparr>git_pull := (\<lambda>f. (False, f))\<rparr>" and args = "[''apt'', ''update'']"
        and f = repo_fs, OF surjective_pairing] p
    by blast
  obtain b w where r: "run sample_config ref_lib (sample_env\<lparr>git_push := False\<rparr>)
      [''apt'', ''update''] fresh_fs = (Exit 1, w)"
    and t: "trace w = [Pulled True, Saved b, Pushed False]"
    using sample_run_push_fails by blast
  have "Pushed False \<in> set (trace w)" using t by simp
  with early_abort_exit_status [OF r] r
  have 3: "fst (run sample_config ref_lib (sample_env\<lparr>git_push := False\<rparr>)
             [''apt'', ''update''] fresh_fs) = Exit 1"
    by simp
  from 1 2 3 show ?thesis by simp
qed

subsection \<open>Sequential ids\<close>

text \<open>
  C6. When \<open>n\<close> successive appends to a store whose file is absent or does not parse
  have gone through, the store holds \<open>n\<close> records, the \<open>i\<close>-th (counted from 1) with
  \<open>id = i\<close> and the \<open>i\<close>-th blob; and every append that goes through adds one record
  whose \<open>id\<close> is the number of records before it plus one.
\<close>

theorem append_assigns_sequential_ids:
  assumes "json_lib_ok L" and "store_empty C L (fs w)"
    and "saveAll C L blobs w = (None, w')"
  shows "length (store_records C L (fs w')) = length blobs \<and>
         (\<forall>i < length blobs.
            store_records C L (fs w') ! i =
              JObj [(''id'', JNum (int i + 1)), (''encrypted'', JStr (blobs ! i))]) \<and>
         (\<forall>v b v'. saveToRepo C L b v = (None, v') \<longrightarrow>
            store_records C L (fs v') =
              store_records C L (fs v) @
                [JObj [(''id'', JNum (int (length (store_records C L (fs v))) + 1)),
                       (''encrypted'', JStr b)]])"
proof (intro conjI allI impI)
  have r: "store_records C L (fs w') = map (\<lambda>(i, b). new_record i b) (enumerate 0 blobs)"
    using saveAll_records[OF assms(1,3)] store_empty_records[OF assms(2)] by simp
  show "length (store_records C L (fs w')) = length blobs"
    by (simp add: r)
  show "store_records C L (fs w') ! i =
          JObj [(''id'', JNum (int i + 1)), (''encrypted'', JStr (blobs ! i))]"
    if "i < length blobs" for i
    using that by (simp add: r nth_enumerate_eq new_record_def)
next
  fix v b v'
  assume "saveToRepo C L b v = (None, v')"
  from saveToRepo_records[OF assms(1) this]
  show "store_records C L (fs v') =
          store_records C L (fs v) @
            [JObj [(''id'', JNum (int (length (store_records C L (fs v))) + 1)),
                   (''encrypted'', JStr b)]]"
    by (simp add: new_record_def)
qed

lemma sample_log_path:
  "logFilePath sample_config ref_lib = ''/home/alice/.sudo-audit-logs/audit-log.json''"
  by (simp add: logFilePath_def sample_config_def ref_lib_join)

lemma sample_store_unparseable:
  "store_empty sample_config ref_lib
     (repo_fs(''/home/alice/.sudo-audit-logs/audit-log.json'' \<mapsto> File ''[{''))"
  by (simp add: store_empty_def sample_log_path) (simp add: ref_lib_def)

theorem append_assigns_sequential_ids_witness:
  "json_lib_ok ref_lib \<and>
   store_empty sample_config ref_lib
     (fs (start (repo_fs(''/home/alice/.sudo-audit-logs/audit-log.json'' \<mapsto> File ''[{'')))) \<and>
   fst (saveAll sample_config ref_lib [''QUJD'', ''REVG'']
          (start (repo_fs(''/home/alice/.sudo-audit-logs/audit-log.json'' \<mapsto> File ''[{'')))) = None \<and>
   store_records sample_config ref_lib
     (fs (snd (saveAll sample_config ref_lib [''QUJD'', ''REVG'']
          (start (repo_fs(''/home/alice/.sudo-audit-logs/audit-log.json'' \<mapsto> File ''[{'')))))) =
     [JObj [(''id'', JNum 1), (''encrypted'', JStr ''QUJD'')],
      JObj [(''id'', JNum 2), (''encrypted'', JStr ''REVG'')]]"
proof -
  define w where "w = start (repo_fs(''/home/alice/.sudo-audit-logs/audit-log.json'' \<mapsto> File ''[{''))"
  have e: "store_empty sample_config ref_lib (fs w)"
    using sample_store_unparseable by (simp add: w_def start_def)
  have d1: "fs w (REPO_PATH sample_config) = Some Dir"
    by (simp add: w_def start_def repo_fs_def sample_config_def)
  have d2: "fs w (parent (logFilePath sample_config ref_lib)) = Some Dir"
    by (simp add: w_def start_def repo_fs_def sample_log_path sample_parents)
  from saveAll_possible[OF ref_lib_json d1 d2, of _ "[''QUJD'', ''REVG'']"] e
  obtain w' where s: "saveAll sample_config ref_lib [''QUJD'', ''REVG''] w = (None, w')"
    by blast
  from append_assigns_sequential_ids [OF ref_lib_json e s]
  have l: "length (store_records sample_config ref_lib (fs w')) = 2"
    and i: "\<forall>i < length [''QUJD'', ''REVG''].
          store_records sample_config ref_lib (fs w') ! i =
            JObj [(''id'', JNum (int i + 1)), (''encrypted'', JStr ([''QUJD'', ''REVG''] ! i))]"
    by simp_all
  from i have 0: "store_records sample_config ref_lib (fs w') ! 0 =
        JObj [(''id'', JNum 1), (''encrypted'', JStr ''QUJD'')]"
    by force
  from i have 1: "store_records sample_config ref_lib (fs w') ! 1 =
        JObj [(''id'', JNum 2), (''encrypted'', JStr ''REVG'')]"
    by force
  have "store_records sample_config ref_lib (fs w') =
     [JObj [(''id'', JNum 1), (''encrypted'', JStr ''QUJD'')],
      JObj [(''id'', JNum 2), (''encrypted'', JStr ''REVG'')]]"
    using l 0 1 by (intro nth_equalityI) (auto simp: less_Suc_eq numeral_2_eq_2)
  with ref_lib_json e s show ?thesis by (simp add: w_def)
qed

subsection \<open>Idempotence of the tamper report\<close>

text \<open>
  C5. After steps 3 and 4 have run once without an exception, running them again over
  the same commit history leaves the world as it is: no entry is appended. Every
  suspicious commit of that history has its seven-character short hash in the set
  \<open>getLoggedTamperCommits\<close> computes from the store. The library is assumed to work
  as documented, and the hashes git reports to be hexadecimal.
\<close>

theorem tamper_scan_idempotent:
  assumes "codec_lib_ok L" and "utf8_roundtrip_json L" and "json_lib_ok L"
    and "\<forall>commits. git_log E (LOG_FILE C) = Some commits \<longrightarrow>
           (\<forall>c \<in> set commits. wellformed_hash (commit_hash c))"
    and "git_log E' = git_log E" and "git_show E' = git_show E"
    and "scanAndReport C L E w = (None, w1)"
  shows "snd (scanAndReport C L E' w1) = w1 \<and>
         (\<forall>ts. checkForTampering C L E w = Inr ts \<longrightarrow>
            (\<forall>t \<in> set ts. substring0 (hash t) 7 \<in> getLoggedTamperCommits C L w1))"
  using scan_twice[OF assms] by blast

lemma sample_commit_wellformed: "wellformed_hash (commit_hash sample_commit)"
  by (simp add: wellformed_hash_def sample_commit_def is_hex_lower_def)

lemma diff_0_5_suspicious:
  "inspectDiff sample_commit diff_0_5 =
     Some \<lparr>hash = commit_hash sample_commit, author = commit_author_name sample_commit,
           date = commit_date sample_commit, deletions = 3,
           message = commit_message sample_commit\<rparr>"
proof -
  have "counted_additions diff_0_5 = 0 \<and> counted_deletions diff_0_5 = 5"
    by (simp add: counted_additions_def counted_deletions_def diff_0_5_def
        is_addition_def is_deletion_def startsWith_def)
  then show ?thesis by (simp add: inspectDiff_counts)
qed

lemma sample_first_scan:
  "\<exists>b. scanAndReport sample_config ref_lib tamper_env (start repo_fs) =
     (None, \<lparr>fs = repo_fs(''/home/alice/.sudo-audit-logs/audit-log.json'' \<mapsto>
                  File (json_stringify ref_lib (JArr [new_record 0 b]) 2)),
             consumed = 32, trace = [Saved b]\<rparr>)"
  by (simp add: scanAndReport_def checkForTampering_def getLoggedTamperCommits_def
      tamper_env_def sample_env_def sample_config_def start_def repo_fs_def diff_0_5_suspicious
      existsSync_def ref_lib_join sample_parents split_def logTamperingWarning_world saveToRepo_def
      readFileSync_def writeFileSync_def mkdirSync_def log_event_def Let_def)

theorem tamper_scan_idempotent_witness:
  "codec_lib_ok ref_lib \<and> utf8_roundtrip_json ref_lib \<and> json_lib_ok ref_lib \<and>
   wellformed_hash (commit_hash sample_commit) \<and>
   fst (scanAndReport sample_config ref_lib tamper_env (start repo_fs)) = None \<and>
   length (trace (snd (scanAndReport sample_config ref_lib tamper_env (start repo_fs)))) = 1 \<and>
   snd (scanAndReport sample_config ref_lib (tamper_env\<lparr>date_now := ''2024-05-03T09:30:00.000Z''\<rparr>)
          (snd (scanAndReport sample_config ref_lib tamper_env (start repo_fs)))) =
     snd (scanAndReport sample_config ref_lib tamper_env (start repo_fs))"
proof -
  have h: "\<forall>commits. git_log tamper_env (LOG_FILE sample_config) = Some commits \<longrightarrow>
      (\<forall>c \<in> set commits. wellformed_hash (commit_hash c))"
    using sample_commit_wellformed by (auto simp: tamper_env_def)
  obtain b where f: "scanAndReport sample_config ref_lib tamper_env (start repo_fs) =
     (None, \<lparr>fs = repo_fs(''/home/alice/.sudo-audit-logs/audit-log.json'' \<mapsto>
                  File (json_stringify ref_lib (JArr [new_record 0 b]) 2)),
             consumed = 32, trace = [Saved b]\<rparr>)"
    using sample_first_scan by blast
  have l: "git_log (tamper_env\<lparr>date_now := ''2024-05-03T09:30:00.000Z''\<rparr>) = git_log tamper_env"
    by simp
  have s: "git_show (tamper_env\<lparr>date_now := ''2024-05-03T09:30:00.000Z''\<rparr>) = git_show tamper_env"
    by simp
  from tamper_scan_idempotent [OF ref_lib_codec_ok ref_lib_utf8_json ref_lib_json h l s f]
  show ?thesis
    using ref_lib_codec_ok ref_lib_utf8_json ref_lib_json sample_commit_wellformed f by simp
qed

end
